theory Spec2Isabelle
  imports Main "HOL-Library.Multiset"
begin

section \<open>Values, errors and table rows\<close>

text \<open>
  The linker service of \<^verbatim>\<open>src/logic/linker_service.py\<close> pairs a browser client with a
  wallet and relays messages between them through four tables. JSON-shaped payloads are
  values of \<open>json\<close>; Python's \<open>None\<close> in a JSON column is \<open>JNull\<close>, a dict is an
  association list in insertion order.
\<close>

datatype json =
  JNull | JBool bool | JNum int | JStr string | JArr "json list" | JObj "(string \<times> json) list"

datatype error = AttributeError | TypeError | KeyError | IndexError | Exception string

datatype MessageTypes = NETWORK | ACCOUNTS | CALL | CALL_RESPONSE

fun truthy :: "json \<Rightarrow> bool" where
  "truthy JNull = False"
| "truthy (JBool b) = b"
| "truthy (JNum n) = (n \<noteq> 0)"
| "truthy (JStr s) = (s \<noteq> [])"
| "truthy (JArr xs) = (xs \<noteq> [])"
| "truthy (JObj kvs) = (kvs \<noteq> [])"

fun truthy_str :: "string option \<Rightarrow> bool" where
  "truthy_str None = False"
| "truthy_str (Some s) = (s \<noteq> [])"

fun dict_set :: "string \<Rightarrow> json \<Rightarrow> (string \<times> json) list \<Rightarrow> (string \<times> json) list" where
  "dict_set k v [] = [(k, v)]"
| "dict_set k v (p # ps) = (if fst p = k then (k, v) # ps else p # dict_set k v ps)"

fun name_of :: "MessageTypes \<Rightarrow> string" where
  "name_of NETWORK = ''NETWORK''"
| "name_of ACCOUNTS = ''ACCOUNTS''"
| "name_of CALL = ''CALL''"
| "name_of CALL_RESPONSE = ''CALL_RESPONSE''"

text \<open>
  The rows of the four tables (the ORM classes \<open>LinkedTokens\<close>, \<open>LinkedSession\<close>,
  \<open>LinkedMessage\<close>, \<open>WalletMessage\<close>). The primary key \<open>id\<close> of each class is
  \<open>tok_id\<close>, \<open>sess_id\<close>, \<open>msg_id\<close>, \<open>wm_id\<close>; the fields \<open>type\<close> and \<open>data\<close>
  carry the prefix of their table. Timestamps are integers in microseconds, the
  resolution of Python's \<open>datetime\<close>. A nullable column is an \<open>option\<close>.
\<close>

record LinkedTokens =
  tok_id :: int
  client_token :: string
  code :: "string option"
  code_expires :: "int option"
  linked :: bool
  wallet_token :: "string option"
  current_rpc :: json
  current_accounts :: json
  pending_call :: json
  app_info :: "(string \<times> string) list option"
  linked_at :: "int option"
  current_return_url :: "string option"

record LinkedSession =
  sess_id :: int
  session_token :: string
  linked_id :: int

record LinkedMessage =
  msg_id :: int
  session_id :: int
  msg_type :: MessageTypes
  msg_data :: json

record WalletMessage =
  wm_id :: int
  wm_wallet_token :: "string option"
  wm_current_accounts :: "string list"
  wm_type :: MessageTypes
  wm_data :: json

text \<open>
  The database: each table is the list of its rows in insertion order, with the next
  value of its auto-increment key. The lookups with \<open>.first()\<close> and the loops that
  change rows walk the table in this order. No query of the service has an
  \<open>ORDER BY\<close>: where the rows of a query are themselves the result of an operation
  (the two polls), the order in which the database returns them is a parameter \<open>scan\<close>
  of the operation, a rearrangement of the rows that the query selects.
\<close>

record db =
  tokens_tbl :: "LinkedTokens list"
  tokens_seq :: int
  sessions_tbl :: "LinkedSession list"
  sessions_seq :: int
  messages_tbl :: "LinkedMessage list"
  messages_seq :: int
  wallet_tbl :: "WalletMessage list"
  wallet_seq :: int

definition empty_db :: db where
  "empty_db = \<lparr>tokens_tbl = [], tokens_seq = 1, sessions_tbl = [], sessions_seq = 1,
     messages_tbl = [], messages_seq = 1, wallet_tbl = [], wallet_seq = 1\<rparr>"

text \<open>
  The collaborators outside the repository, taken as parameters: the transaction
  dissector (it may raise), SHA3-224 as a hex digest, the user-agent parser (attribute by
  name), the millisecond conversion of a timestamp, the checksum form of an address (it
  may raise) and the push notification (endpoint lookup and sending; it may raise).
\<close>

record ext =
  dissect_transaction :: "json \<Rightarrow> json \<Rightarrow> error + (string \<times> json) list"
  sha3_224_hexdigest :: "string \<Rightarrow> string"
  UserAgent :: "string \<Rightarrow> string \<Rightarrow> json"
  to_js_timestamp :: "int \<Rightarrow> int"
  toChecksumAddress :: "string \<Rightarrow> error + string"
  send_single_notification :: "string \<Rightarrow> string option \<Rightarrow> string \<Rightarrow> json \<Rightarrow> error option"

section \<open>Code issuance and the link identity hash\<close>

definition CODE_EXPIRATION_TIME_MINUTES :: int where
  "CODE_EXPIRATION_TIME_MINUTES = 60"

definition timedelta_minutes :: "int \<Rightarrow> int" where
  "timedelta_minutes m = m * 60000000"

definition ascii_letters :: string where
  "ascii_letters = ''abcdefghijklmnopqrstuvwxyzABCDEFGHIJKLMNOPQRSTUVWXYZ''"

definition digits :: string where
  "digits = ''0123456789''"

text \<open>
  \<open>random.choices(population, k)\<close>: \<open>k\<close> independent picks of an index into the
  population. The random source \<open>rnd\<close> gives a natural number for each pick, reduced to
  an index.
\<close>

definition choices :: "(nat \<Rightarrow> nat) \<Rightarrow> string \<Rightarrow> nat \<Rightarrow> string" where
  "choices rnd population k = map (\<lambda>j. population ! (rnd j mod length population)) [0..<k]"

text \<open>
  The filter \<open>filter_by(code = c).filter(code_expires > utcnow())\<close>: SQL compares a
  null column with nothing, so a row without a code or without an expiry never passes.
\<close>

definition code_unexpired :: "int \<Rightarrow> string \<Rightarrow> LinkedTokens \<Rightarrow> bool" where
  "code_unexpired now c r \<longleftrightarrow>
     code r = Some c \<and> (case code_expires r of None \<Rightarrow> False | Some e \<Rightarrow> now < e)"

text \<open>The loop \<open>for i in range(10)\<close> of \<open>_generate_code\<close>, over the attempts left.\<close>

fun generate_code_attempts ::
  "(nat \<Rightarrow> nat \<Rightarrow> nat) \<Rightarrow> LinkedTokens list \<Rightarrow> int \<Rightarrow> nat list \<Rightarrow> error + string" where
  "generate_code_attempts rnd toks now [] =
     Inl (Exception ''We hit max retries without finding a none repreated code!'')"
| "generate_code_attempts rnd toks now (i # rest) =
     (let c = choices (rnd i) (ascii_letters @ digits) 9
      in if length (filter (code_unexpired now c) toks) = 0 then Inr c
         else generate_code_attempts rnd toks now rest)"

definition u_generate_code :: "(nat \<Rightarrow> nat \<Rightarrow> nat) \<Rightarrow> LinkedTokens list \<Rightarrow> int \<Rightarrow> error + string" where
  "u_generate_code rnd toks now = generate_code_attempts rnd toks now [0..<10]"

text \<open>The format \<open>%d\<close>: the decimal digits of an integer, with a minus sign.\<close>

definition digit_char :: "nat \<Rightarrow> char" where
  "digit_char n = digits ! (n mod 10)"

function str_nat :: "nat \<Rightarrow> string" where
  "str_nat n = (if n < 10 then [digit_char n] else str_nat (n div 10) @ [digit_char (n mod 10)])"
  by pat_completeness auto
termination
  by (relation "measure (\<lambda>n. n)") auto

definition format_d :: "int \<Rightarrow> string" where
  "format_d i = (if i < 0 then CHR ''-'' # str_nat (nat (- i)) else str_nat (nat i))"

definition u_hash_id :: "ext \<Rightarrow> int \<Rightarrow> string \<Rightarrow> string" where
  "u_hash_id X exposed_id key = take 16 (sha3_224_hexdigest X (format_d exposed_id @ key))"

section \<open>Sessions and the client mailbox\<close>

definition add_LinkedMessage :: "int \<Rightarrow> MessageTypes \<Rightarrow> json \<Rightarrow> db \<Rightarrow> db" where
  "add_LinkedMessage sid ty d s =
     s\<lparr>messages_tbl := messages_tbl s @
          [\<lparr>msg_id = messages_seq s, session_id = sid, msg_type = ty, msg_data = d\<rparr>],
       messages_seq := messages_seq s + 1\<rparr>"

definition send_init_messages :: "LinkedSession \<Rightarrow> LinkedTokens \<Rightarrow> db \<Rightarrow> db" where
  "send_init_messages db_linked_session linked_obj s =
     add_LinkedMessage (sess_id db_linked_session) ACCOUNTS (current_accounts linked_obj)
       (add_LinkedMessage (sess_id db_linked_session) NETWORK (current_rpc linked_obj) s)"

text \<open>
  \<open>generate_init_session\<close>: the new session token is the value \<open>uuid\<close> that
  \<open>uuid.uuid1()\<close> returns.
\<close>

definition generate_init_session :: "string \<Rightarrow> LinkedTokens \<Rightarrow> db \<Rightarrow> string \<times> db" where
  "generate_init_session uuid linked_obj s =
     (let db_linked_session =
            \<lparr>sess_id = sessions_seq s, session_token = uuid, linked_id = tok_id linked_obj\<rparr>;
          s1 = s\<lparr>sessions_tbl := sessions_tbl s @ [db_linked_session],
                 sessions_seq := sessions_seq s + 1\<rparr>
      in (uuid, if linked linked_obj then send_init_messages db_linked_session linked_obj s1 else s1))"

section \<open>Completing a link\<close>

text \<open>
  The arguments of the operations have the types of the interface: an argument that is
  required is a plain value (a wallet token, a code, a session token of a delivered
  result are strings), an argument that may be absent is an \<open>option\<close>, and a test
  such as \<open>if not client_token\<close> holds for the absent and for the empty string. Each
  call reads the clock once: \<open>now\<close> is the value of \<open>utcnow()\<close> during the call.
\<close>

definition u_to_usable_info :: "ext \<Rightarrow> (string \<times> string) list option \<Rightarrow> json" where
  "u_to_usable_info X info =
     (case info of
        None \<Rightarrow> JNull
      | Some d \<Rightarrow>
          (case map_of d ''user-agent'' of
             None \<Rightarrow> JNull
           | Some ua \<Rightarrow>
               JObj [(''platform'', UserAgent X ua ''platform''),
                     (''browser'', UserAgent X ua ''browser''),
                     (''language'', UserAgent X ua ''language''),
                     (''version'', UserAgent X ua ''version'')]))"

text \<open>The commit of a changed row: \<open>UPDATE ... WHERE id = :id\<close>.\<close>

definition update_LinkedTokens :: "LinkedTokens \<Rightarrow> db \<Rightarrow> db" where
  "update_LinkedTokens obj s =
     s\<lparr>tokens_tbl := map (\<lambda>r. if tok_id r = tok_id obj then obj else r) (tokens_tbl s)\<rparr>"

text \<open>The loop over the sessions bound to the record, in \<open>link_wallet\<close>.\<close>

fun fan_out :: "LinkedSession list \<Rightarrow> LinkedTokens \<Rightarrow> db \<Rightarrow> db" where
  "fan_out [] unlinked s = s"
| "fan_out (linked_session # rest) unlinked s =
     fan_out rest unlinked (send_init_messages linked_session unlinked s)"

text \<open>
  \<open>link_wallet\<close> at the time \<open>now\<close> that \<open>utcnow()\<close> returns. The result is the outcome
  (an exception or the returned tuple) and the database after the call.
\<close>

definition link_wallet ::
  "ext \<Rightarrow> int \<Rightarrow> string \<Rightarrow> string \<Rightarrow> json \<Rightarrow> json \<Rightarrow> db
     \<Rightarrow> (error + (string option \<times> bool \<times> json \<times> json \<times> string \<times> int)) \<times> db" where
  "link_wallet X now wallet c rpc accounts s =
     (case find (code_unexpired now c) (tokens_tbl s) of
        None \<Rightarrow> (Inr (Some '''', False, JNull, JNull, '''', 0), s)
      | Some unlinked \<Rightarrow>
          (let last_pending_call = pending_call unlinked;
               last_user_agent = u_to_usable_info X (app_info unlinked);
               unlinked' = unlinked\<lparr>wallet_token := Some wallet, code := None, linked := True,
                             current_rpc := rpc, current_accounts := accounts,
                             linked_at := Some now, pending_call := JNull\<rparr>;
               s1 = update_LinkedTokens unlinked' s;
               s2 = (if tok_id unlinked' \<noteq> 0
                     then fan_out (filter (\<lambda>x. linked_id x = tok_id unlinked') (sessions_tbl s1))
                            unlinked' s1
                     else s1)
           in (Inr (current_return_url unlinked', True, last_pending_call, last_user_agent,
                    u_hash_id X (tok_id unlinked') (client_token unlinked'),
                    to_js_timestamp X now), s2)))"

section \<open>Polling the client mailbox\<close>

text \<open>The subscript \<open>d[k]\<close> on a JSON value: a missing key and a value that is no dict raise.\<close>

definition item :: "json \<Rightarrow> string \<Rightarrow> error + json" where
  "item d k =
     (case d of
        JObj kvs \<Rightarrow> (case map_of kvs k of None \<Rightarrow> Inl KeyError | Some v \<Rightarrow> Inr v)
      | _ \<Rightarrow> Inl TypeError)"

text \<open>The body of the loop of \<open>get_linked_messages\<close>: one row re-shaped.\<close>

definition shape_message :: "LinkedMessage \<Rightarrow> error + json" where
  "shape_message db_message =
     (let message = [(''type'', JStr (name_of (msg_type db_message))),
                     (''id'', JNum (msg_id db_message))]
      in if msg_type db_message = NETWORK
           then Inr (JObj (dict_set ''network_rpc'' (msg_data db_message) message))
         else if msg_type db_message = ACCOUNTS
           then Inr (JObj (dict_set ''accounts'' (msg_data db_message) message))
         else (case item (msg_data db_message) ''result'' of
                 Inl e \<Rightarrow> Inl e
               | Inr r \<Rightarrow>
                   (case item (msg_data db_message) ''call_id'' of
                      Inl e \<Rightarrow> Inl e
                    | Inr c \<Rightarrow> Inr (JObj (dict_set ''call_id'' c (dict_set ''result'' r message))))))"

fun shape_messages :: "LinkedMessage list \<Rightarrow> error + json list" where
  "shape_messages [] = Inr []"
| "shape_messages (m # ms) =
     (case shape_message m of
        Inl e \<Rightarrow> Inl e
      | Inr j \<Rightarrow> (case shape_messages ms of Inl e \<Rightarrow> Inl e | Inr js \<Rightarrow> Inr (j # js)))"

text \<open>
  \<open>get_linked_messages\<close>: the loop \<open>for db_message in linked_messages_query\<close> takes
  the selected rows in the order \<open>scan\<close> in which the database returns them.
\<close>

definition get_linked_messages ::
  "(LinkedMessage list \<Rightarrow> LinkedMessage list) \<Rightarrow> LinkedSession \<Rightarrow> int option \<Rightarrow> bool \<Rightarrow> db
     \<Rightarrow> (error + json list) \<times> db" where
  "get_linked_messages scan db_linked_session last_message_id purge s =
     (let mine = (\<lambda>m. session_id m = sess_id db_linked_session);
          s1 = (case last_message_id of
                  None \<Rightarrow> s
                | Some c \<Rightarrow>
                    if purge
                    then s\<lparr>messages_tbl := filter (\<lambda>m. \<not> (mine m \<and> msg_id m \<le> c)) (messages_tbl s)\<rparr>
                    else s);
          selected = (case last_message_id of
                        None \<Rightarrow> filter mine (messages_tbl s1)
                      | Some c \<Rightarrow> filter (\<lambda>m. mine m \<and> c < msg_id m) (messages_tbl s1))
      in (shape_messages (scan selected), s1))"

fun str_of :: "string option \<Rightarrow> string" where
  "str_of None = []"
| "str_of (Some x) = x"

definition link_messages ::
  "(LinkedMessage list \<Rightarrow> LinkedMessage list) \<Rightarrow> string \<Rightarrow> string \<Rightarrow> string option
     \<Rightarrow> int option \<Rightarrow> db
     \<Rightarrow> (error + (string \<times> string option \<times> json list \<times> bool)) \<times> db" where
  "link_messages scan uuid ct st last_message_id s =
     (if ct = [] then (Inr (ct, None, [], False), s)
      else
        (case find (\<lambda>r. client_token r = ct) (tokens_tbl s) of
           None \<Rightarrow> (Inr ([], None, [], False), s)
         | Some linked_obj \<Rightarrow>
             if \<not> linked linked_obj then (Inr (ct, st, [], False), s)
             else
               (let generated = (\<not> truthy_str st);
                    (st1, s1) = (if generated then generate_init_session uuid linked_obj s
                                 else (str_of st, s))
                in (case find (\<lambda>x. session_token x = st1 \<and> linked_id x = tok_id linked_obj)
                           (sessions_tbl s1) of
                      Some db_linked_session \<Rightarrow>
                        (case get_linked_messages scan db_linked_session last_message_id True
                                s1 of
                           (Inl e, s2) \<Rightarrow> (Inl e, s2)
                         | (Inr ms, s2) \<Rightarrow> (Inr (ct, Some st1, ms, True), s2))
                    | None \<Rightarrow>
                        if generated
                        then (Inl (Exception ''Problem generating the session.''), s1)
                        else
                          (let (st2, s2) = generate_init_session uuid linked_obj s1
                           in (case find (\<lambda>x. session_token x = st2 \<and>
                                               linked_id x = tok_id linked_obj)
                                      (sessions_tbl s2) of
                                 None \<Rightarrow> (Inl AttributeError, s2)
                               | Some db_linked_session \<Rightarrow>
                                   (case get_linked_messages scan db_linked_session
                                           last_message_id True s2 of
                                      (Inl e, s3) \<Rightarrow> (Inl e, s3)
                                    | (Inr ms, s3) \<Rightarrow> (Inr (ct, Some st2, ms, True), s3))))))))"

section \<open>Polling the wallet mailbox\<close>

definition shape_wallet_message :: "WalletMessage \<Rightarrow> error + json" where
  "shape_wallet_message db_message =
     (let message = [(''type'', JStr (name_of (wm_type db_message))),
                     (''id'', JNum (wm_id db_message))];
          d = wm_data db_message
      in if wm_type db_message = CALL
         then (case item d ''call'' of
                 Inl e \<Rightarrow> Inl e
               | Inr c \<Rightarrow>
                   (case item d ''meta'' of
                      Inl e \<Rightarrow> Inl e
                    | Inr m \<Rightarrow>
                        (case item d ''call_id'' of
                           Inl e \<Rightarrow> Inl e
                         | Inr i \<Rightarrow>
                             (let m1 = dict_set ''call_id'' i
                                         (dict_set ''meta'' m (dict_set ''call'' c message));
                                  m2 = (case item d ''session_token'' of
                                          Inr t \<Rightarrow> dict_set ''session_token'' t m1
                                        | Inl e \<Rightarrow> m1);
                                  m3 = (case item d ''return_url'' of
                                          Inr u \<Rightarrow> if truthy u then dict_set ''return_url'' u m2 else m2
                                        | Inl e \<Rightarrow> m2)
                              in Inr (JObj m3)))))
         else Inr (JObj message))"

fun shape_wallet_messages :: "WalletMessage list \<Rightarrow> error + json list" where
  "shape_wallet_messages [] = Inr []"
| "shape_wallet_messages (m # ms) =
     (case shape_wallet_message m of
        Inl e \<Rightarrow> Inl e
      | Inr j \<Rightarrow> (case shape_wallet_messages ms of Inl e \<Rightarrow> Inl e | Inr js \<Rightarrow> Inr (j # js)))"

text \<open>
  \<open>wallet_messages\<close>: the column filter \<open>current_accounts.contains(accounts[0])\<close> is
  membership in the stored list of accounts.
\<close>

definition wallet_messages ::
  "(WalletMessage list \<Rightarrow> WalletMessage list) \<Rightarrow> string \<Rightarrow> string list \<Rightarrow> int option \<Rightarrow> db
     \<Rightarrow> (error + json list) \<times> db" where
  "wallet_messages scan wallet accounts last_message_id s =
     (if wallet = [] then (Inr [], s)
      else
        (case accounts of
           [] \<Rightarrow> (Inl IndexError, s)
         | a # _ \<Rightarrow>
             (let mine = (\<lambda>m. wm_wallet_token m = Some wallet \<and> a \<in> set (wm_current_accounts m));
                  s1 = (case last_message_id of
                          None \<Rightarrow> s
                        | Some c \<Rightarrow>
                            s\<lparr>wallet_tbl := filter (\<lambda>m. \<not> (mine m \<and> wm_id m \<le> c)) (wallet_tbl s)\<rparr>);
                  selected = (case last_message_id of
                                None \<Rightarrow> filter mine (wallet_tbl s1)
                              | Some c \<Rightarrow> filter (\<lambda>m. mine m \<and> c < wm_id m) (wallet_tbl s1))
              in (shape_wallet_messages (scan selected), s1))))"

section \<open>Requesting a code\<close>

text \<open>\<open>len(x)\<close>, \<open>x[1]\<close> and \<open>x.get(k)\<close> on a JSON value, as \<open>_get_meta\<close> uses them.\<close>

definition py_len :: "json \<Rightarrow> error + nat" where
  "py_len x =
     (case x of
        JStr s \<Rightarrow> Inr (length s)
      | JArr xs \<Rightarrow> Inr (length xs)
      | JObj kvs \<Rightarrow> Inr (length kvs)
      | _ \<Rightarrow> Inl TypeError)"

definition index1 :: "json \<Rightarrow> error + json" where
  "index1 x =
     (case x of
        JArr xs \<Rightarrow> (if 1 < length xs then Inr (xs ! 1) else Inl IndexError)
      | JStr s \<Rightarrow> (if 1 < length s then Inr (JStr [s ! 1]) else Inl IndexError)
      | JObj kvs \<Rightarrow> Inl KeyError
      | _ \<Rightarrow> Inl TypeError)"

definition get_method :: "json \<Rightarrow> string \<Rightarrow> error + json" where
  "get_method x k =
     (case x of
        JObj kvs \<Rightarrow> Inr (case map_of kvs k of None \<Rightarrow> JNull | Some v \<Rightarrow> v)
      | _ \<Rightarrow> Inl AttributeError)"

definition u_get_meta :: "ext \<Rightarrow> json \<Rightarrow> json \<Rightarrow> error + (string \<times> json) list" where
  "u_get_meta X rpc call =
     (if \<not> truthy call then Inr []
      else
        (case py_len call of
           Inl e \<Rightarrow> Inl e
         | Inr n \<Rightarrow>
             if \<not> 1 < n then Inr []
             else
               (case index1 call of
                  Inl e \<Rightarrow> Inl e
                | Inr c1 \<Rightarrow>
                    (case get_method c1 ''txn_object'' of
                       Inl e \<Rightarrow> Inl e
                     | Inr txn \<Rightarrow> if truthy txn then dissect_transaction X rpc txn else Inr []))))"

text \<open>
  A \<open>LinkedTokens\<close> object as the constructor leaves it, before the commit gives it its
  key (the placeholder \<open>0\<close> stands for the key not yet assigned).
\<close>

definition new_LinkedTokens :: "string \<Rightarrow> LinkedTokens" where
  "new_LinkedTokens ct =
     \<lparr>tok_id = 0, client_token = ct, code = None, code_expires = None, linked = False,
      wallet_token = None, current_rpc = JNull, current_accounts = JNull, pending_call = JNull,
      app_info = None, linked_at = None, current_return_url = None\<rparr>"

definition insert_LinkedTokens :: "LinkedTokens \<Rightarrow> db \<Rightarrow> LinkedTokens \<times> db" where
  "insert_LinkedTokens obj s =
     (let obj' = obj\<lparr>tok_id := tokens_seq s\<rparr>
      in (obj', s\<lparr>tokens_tbl := tokens_tbl s @ [obj'], tokens_seq := tokens_seq s + 1\<rparr>))"

text \<open>Lines 51 to 59 of \<open>generate_code\<close>: the changes to the object before the commit.\<close>

definition issue_code ::
  "(nat \<Rightarrow> nat \<Rightarrow> nat) \<Rightarrow> int \<Rightarrow> string \<Rightarrow> string option \<Rightarrow> bool \<Rightarrow> LinkedTokens list
     \<Rightarrow> LinkedTokens \<Rightarrow> error + LinkedTokens" where
  "issue_code rnd now return_url user_agent force_relink toks linked_obj =
     (let obj1 = (if force_relink then linked_obj\<lparr>linked := False, wallet_token := None\<rparr>
                  else linked_obj)
      in if \<not> linked obj1
         then
           (let obj2 = (if truthy_str user_agent
                        then obj1\<lparr>app_info := Some [(''user-agent'', str_of user_agent)]\<rparr>
                        else obj1)
            in (case u_generate_code rnd toks now of
                  Inl e \<Rightarrow> Inl e
                | Inr c \<Rightarrow>
                    Inr (obj2\<lparr>code := Some c,
                              code_expires :=
                                Some (now + timedelta_minutes CODE_EXPIRATION_TIME_MINUTES),
                              current_return_url := Some return_url\<rparr>)))
         else Inr obj1)"

text \<open>Lines 66 to 71 of \<open>generate_code\<close>: the pending call stored on the record.\<close>

definition attach_pending_call ::
  "ext \<Rightarrow> json \<Rightarrow> string \<Rightarrow> LinkedTokens \<Rightarrow> db \<Rightarrow> error option \<times> db" where
  "attach_pending_call X pending st linked_obj s =
     (if truthy pending \<and> \<not> linked linked_obj
      then
        (case pending of
           JObj kvs \<Rightarrow>
             (let kvs1 = dict_set ''session_token'' (JStr st) kvs
              in (case u_get_meta X JNull
                         (case map_of kvs1 ''call'' of None \<Rightarrow> JNull | Some v \<Rightarrow> v) of
                    Inl e \<Rightarrow> (Some e, s)
                  | Inr meta \<Rightarrow>
                      (None, update_LinkedTokens
                               (linked_obj\<lparr>pending_call := JObj (dict_set ''meta'' (JObj meta) kvs1)\<rparr>)
                               s)))
         | _ \<Rightarrow> (Some TypeError, s))
      else (None, s))"

text \<open>
  \<open>generate_code\<close> at the time \<open>now\<close>, with the random source \<open>rnd\<close> and the two
  values \<open>uuid_client\<close> and \<open>uuid_session\<close> that \<open>uuid.uuid1()\<close> returns. An unknown
  client token leaves \<open>linked_obj\<close> at \<open>None\<close>, and the first read of
  \<open>linked_obj.linked\<close> raises.
\<close>

definition generate_code ::
  "ext \<Rightarrow> (nat \<Rightarrow> nat \<Rightarrow> nat) \<Rightarrow> string \<Rightarrow> string \<Rightarrow> int \<Rightarrow> string option \<Rightarrow> string option
     \<Rightarrow> string \<Rightarrow> json \<Rightarrow> string option \<Rightarrow> bool \<Rightarrow> db
     \<Rightarrow> (error + (string \<times> string \<times> string option \<times> bool)) \<times> db" where
  "generate_code X rnd uuid_client uuid_session now ct st return_url pending user_agent
       force_relink s =
     (let fresh = (\<not> truthy_str ct);
          client = (if fresh then uuid_client else str_of ct);
          found = (if fresh then Some (new_LinkedTokens client)
                   else find (\<lambda>r. client_token r = client) (tokens_tbl s))
      in (case found of
            None \<Rightarrow> (Inl AttributeError, s)
          | Some linked_obj \<Rightarrow>
              (case issue_code rnd now return_url user_agent force_relink (tokens_tbl s)
                      linked_obj of
                 Inl e \<Rightarrow> (Inl e, s)
               | Inr obj \<Rightarrow>
                   (let (obj', s1) = (if fresh then insert_LinkedTokens obj s
                                      else (obj, update_LinkedTokens obj s));
                        (st', s2) =
                          (if truthy_str st \<and>
                              find (\<lambda>x. session_token x = str_of st \<and> linked_id x = tok_id obj')
                                (sessions_tbl s1) \<noteq> None
                           then (str_of st, s1)
                           else generate_init_session uuid_session obj' s1)
                    in (case attach_pending_call X pending st' obj' s2 of
                          (Some e, s3) \<Rightarrow> (Inl e, s3)
                        | (None, s3) \<Rightarrow>
                            (Inr (client, st',
                                  if \<not> linked obj' then code obj' else Some [],
                                  linked obj'), s3))))))"

section \<open>The call round trip\<close>

definition add_WalletMessage ::
  "string option \<Rightarrow> string list \<Rightarrow> MessageTypes \<Rightarrow> json \<Rightarrow> db \<Rightarrow> db" where
  "add_WalletMessage wallet accounts ty d s =
     s\<lparr>wallet_tbl := wallet_tbl s @
          [\<lparr>wm_id = wallet_seq s, wm_wallet_token = wallet, wm_current_accounts = accounts,
            wm_type = ty, wm_data = d\<rparr>],
       wallet_seq := wallet_seq s + 1\<rparr>"

text \<open>
  \<open>call_wallet\<close>. The session is looked up with \<open>.first()\<close> and its token is read
  without a test, when the payload is built: with no such session the read raises. The
  message is committed before the notification is sent.
\<close>

definition call_wallet ::
  "ext \<Rightarrow> string \<Rightarrow> string \<Rightarrow> string list \<Rightarrow> json \<Rightarrow> json \<Rightarrow> string option \<Rightarrow> db
     \<Rightarrow> (error + bool) \<times> db" where
  "call_wallet X ct st accounts call_id call return_url s =
     (if ct = [] then (Inr False, s)
      else
        (case find (\<lambda>r. client_token r = ct \<and> linked r) (tokens_tbl s) of
           None \<Rightarrow> (Inr False, s)
         | Some linked_obj \<Rightarrow>
             (let session_obj = find (\<lambda>x. linked_id x = tok_id linked_obj \<and> session_token x = st)
                                  (sessions_tbl s)
              in (case u_get_meta X (current_rpc linked_obj) call of
                    Inl e \<Rightarrow> (Inl e, s)
                  | Inr meta \<Rightarrow>
                      (case session_obj of
                         None \<Rightarrow> (Inl AttributeError, s)
                       | Some so \<Rightarrow>
                           (let call_data = [(''call_id'', call_id), (''call'', call),
                                             (''meta'', JObj meta),
                                             (''session_token'', JStr (session_token so))];
                                call_data' = (if truthy_str return_url
                                              then dict_set ''return_url'' (JStr (str_of return_url))
                                                     call_data
                                              else call_data);
                                s1 = add_WalletMessage (wallet_token linked_obj) accounts CALL
                                       (JObj call_data') s
                            in (case accounts of
                                  [] \<Rightarrow> (Inl IndexError, s1)
                                | a # _ \<Rightarrow>
                                    (case toChecksumAddress X a of
                                       Inl e \<Rightarrow> (Inl e, s1)
                                     | Inr eth_address \<Rightarrow>
                                         (case (case map_of meta ''info'' of
                                                  Some info \<Rightarrow>
                                                    send_single_notification X eth_address
                                                      (wallet_token linked_obj)
                                                      ''INFO_TRANSACTION_PENDING'' info
                                                | None \<Rightarrow>
                                                    send_single_notification X eth_address
                                                      (wallet_token linked_obj)
                                                      ''TRANSACTION_PENDING'' (JObj [])) of
                                            Some e \<Rightarrow> (Inl e, s1)
                                          | None \<Rightarrow> (Inr True, s1))))))))))"

text \<open>
  \<open>wallet_called\<close>. \<open>LinkedTokens.query.get\<close> is the lookup by primary key; the test
  after it is on the row being there.
\<close>

definition wallet_called ::
  "string \<Rightarrow> json \<Rightarrow> string \<Rightarrow> json \<Rightarrow> db \<Rightarrow> (error + bool) \<times> db" where
  "wallet_called wallet call_id st result s =
     (case find (\<lambda>x. session_token x = st) (sessions_tbl s) of
        None \<Rightarrow> (Inl (Exception ''Session does not exist''), s)
      | Some session_obj \<Rightarrow>
          (case find (\<lambda>r. tok_id r = linked_id session_obj) (tokens_tbl s) of
             None \<Rightarrow> (Inl (Exception ''Session not linked''), s)
           | Some linked_obj \<Rightarrow>
               if \<not> wallet_token linked_obj = Some wallet
               then (Inl (Exception ''Wallet linked to a different session''), s)
               else
                 (let response_data = JObj [(''call_id'', call_id), (''result'', result)]
                  in (Inr True,
                      add_LinkedMessage (sess_id session_obj) CALL_RESPONSE response_data s))))"

section \<open>Unlinking\<close>

definition unlink :: "string \<Rightarrow> db \<Rightarrow> (error + bool) \<times> db" where
  "unlink ct s =
     (case find (\<lambda>r. client_token r = ct) (tokens_tbl s) of
        None \<Rightarrow> (Inr True, s)
      | Some unlinked \<Rightarrow>
          if \<not> linked unlinked then (Inr True, s)
          else (Inr True, update_LinkedTokens (unlinked\<lparr>linked := False\<rparr>) s))"

text \<open>The loop of \<open>unlink_wallet\<close> over the rows of the wallet.\<close>

fun unlink_wallet_loop :: "ext \<Rightarrow> string \<Rightarrow> LinkedTokens list \<Rightarrow> db \<Rightarrow> bool \<times> db" where
  "unlink_wallet_loop X link_id [] s = (False, s)"
| "unlink_wallet_loop X link_id (l # rest) s =
     (if linked l \<and> u_hash_id X (tok_id l) (client_token l) = link_id
      then (True, update_LinkedTokens (l\<lparr>linked := False, wallet_token := Some []\<rparr>) s)
      else unlink_wallet_loop X link_id rest s)"

definition unlink_wallet :: "ext \<Rightarrow> string \<Rightarrow> string \<Rightarrow> db \<Rightarrow> (error + bool) \<times> db" where
  "unlink_wallet X wallet link_id s =
     (case unlink_wallet_loop X link_id
             (filter (\<lambda>r. wallet_token r = Some wallet) (tokens_tbl s)) s of
        (found, s') \<Rightarrow> (Inr found, s'))"

section \<open>Reachable states\<close>

text \<open>
  \<open>reach t s\<close>: the database \<open>s\<close> is the result of a sequence of calls of the
  operations on the empty database, one call after the other, the clock standing at
  \<open>t\<close> after the last one. The clock never runs backwards. Every argument, every random
  draw and every collaborator is arbitrary at each call. The operations \<open>link_info\<close> and
  \<open>get_links\<close> only read the database and add no state.
\<close>

inductive reach :: "int \<Rightarrow> db \<Rightarrow> bool" where
  start: "reach t empty_db"
| tick: "reach t s \<Longrightarrow> t \<le> t' \<Longrightarrow> reach t' s"
| requestCode:
    "reach t s \<Longrightarrow>
     reach t (snd (generate_code X rnd uuid_client uuid_session t ct st return_url pending
                     user_agent force_relink s))"
| completeLink: "reach t s \<Longrightarrow> reach t (snd (link_wallet X t wallet c rpc accounts s))"
| pollClientMessages:
    "reach t s \<Longrightarrow> reach t (snd (link_messages scan uuid ct st last_message_id s))"
| pollWalletMessages:
    "reach t s \<Longrightarrow> reach t (snd (wallet_messages scan' wallet accounts last_message_id s))"
| submitCall:
    "reach t s \<Longrightarrow> reach t (snd (call_wallet X ct st accounts call_id call return_url s))"
| deliverResult: "reach t s \<Longrightarrow> reach t (snd (wallet_called wallet call_id st result s))"
| unlinkClient: "reach t s \<Longrightarrow> reach t (snd (unlink ct s))"
| unlinkByWallet: "reach t s \<Longrightarrow> reach t (snd (unlink_wallet X wallet link_id s))"

section \<open>Auxiliary definitions for the statements\<close>

text \<open>
  The rows that the fan-out of \<open>link_wallet\<close> appends for the sessions \<open>xs\<close>, written
  out: for each session a \<open>NETWORK\<close> row and an \<open>ACCOUNTS\<close> row, with consecutive keys
  from \<open>n\<close>.
\<close>

fun init_rows :: "int \<Rightarrow> LinkedSession list \<Rightarrow> LinkedTokens \<Rightarrow> LinkedMessage list" where
  "init_rows n [] u = []"
| "init_rows n (x # xs) u =
     \<lparr>msg_id = n, session_id = sess_id x, msg_type = NETWORK, msg_data = current_rpc u\<rparr> #
     \<lparr>msg_id = n + 1, session_id = sess_id x, msg_type = ACCOUNTS,
       msg_data = current_accounts u\<rparr> #
     init_rows (n + 2) xs u"

text \<open>
  Concrete collaborators and a concrete run, for the examples: a client asks for a code
  at time 100, a wallet links with it at time 200, the client unlinks.
\<close>

definition example_ext :: ext where
  "example_ext =
     \<lparr>dissect_transaction = (\<lambda>rpc txn. Inr []),
      sha3_224_hexdigest = (\<lambda>s. replicate 56 (CHR ''0'')),
      UserAgent = (\<lambda>ua attr. JNull),
      to_js_timestamp = (\<lambda>t. t div 1000),
      toChecksumAddress = (\<lambda>a. Inr a),
      send_single_notification = (\<lambda>addr dev kind payload. None)\<rparr>"

definition example_rnd :: "nat \<Rightarrow> nat \<Rightarrow> nat" where
  "example_rnd i j = i + j"

definition example_coded :: db where
  "example_coded =
     snd (generate_code example_ext example_rnd ''c1'' ''s1'' 100 None None ''url'' JNull None
            False empty_db)"

definition example_linked :: db where
  "example_linked =
     snd (link_wallet example_ext 200 ''w'' ''abcdefghi'' (JStr ''rpc'') (JArr [JStr ''0xa''])
            example_coded)"

definition example_unlinked :: db where
  "example_unlinked = snd (unlink ''c1'' example_linked)"

text \<open>
  The invariants of reachable states. \<open>rec_ok\<close> is the record invariant; \<open>keys_ok\<close>
  says that the keys of a table are positive, distinct and below the next key; \<open>msg_ok\<close> says that a client message
  other than \<open>NETWORK\<close> and \<open>ACCOUNTS\<close> is a \<open>CALL_RESPONSE\<close> with a call id and a
  result; \<open>codes_ok\<close> says that two rows holding the same unexpired code are the same
  row.
\<close>

definition rec_ok :: "LinkedTokens \<Rightarrow> bool" where
  "rec_ok r \<longleftrightarrow>
     (code r \<noteq> None \<longrightarrow> \<not> linked r) \<and>
     (linked r \<longrightarrow> wallet_token r \<noteq> None \<and> code r = None) \<and>
     (linked r \<longrightarrow> pending_call r = JNull)"

definition keys_ok :: "db \<Rightarrow> bool" where
  "keys_ok s \<longleftrightarrow>
     0 < tokens_seq s \<and> 0 < sessions_seq s \<and> 0 < messages_seq s \<and>
     distinct (map tok_id (tokens_tbl s)) \<and>
     (\<forall>r \<in> set (tokens_tbl s). 0 < tok_id r \<and> tok_id r < tokens_seq s) \<and>
     distinct (map sess_id (sessions_tbl s)) \<and>
     (\<forall>x \<in> set (sessions_tbl s). 0 < sess_id x \<and> sess_id x < sessions_seq s) \<and>
     distinct (map msg_id (messages_tbl s)) \<and>
     (\<forall>m \<in> set (messages_tbl s). 0 < msg_id m \<and> msg_id m < messages_seq s)"

definition msg_ok :: "LinkedMessage \<Rightarrow> bool" where
  "msg_ok m \<longleftrightarrow>
     msg_type m = NETWORK \<or> msg_type m = ACCOUNTS \<or>
     (msg_type m = CALL_RESPONSE \<and>
      (\<exists>c r. msg_data m = JObj [(''call_id'', c), (''result'', r)]))"

definition codes_ok :: "int \<Rightarrow> LinkedTokens list \<Rightarrow> bool" where
  "codes_ok t toks \<longleftrightarrow>
     (\<forall>r1 \<in> set toks. \<forall>r2 \<in> set toks. \<forall>c.
        code_unexpired t c r1 \<and> code_unexpired t c r2 \<longrightarrow> tok_id r1 = tok_id r2)"

definition db_inv :: "int \<Rightarrow> db \<Rightarrow> bool" where
  "db_inv t s \<longleftrightarrow>
     keys_ok s \<and> (\<forall>r \<in> set (tokens_tbl s). rec_ok r) \<and> codes_ok t (tokens_tbl s) \<and>
     (\<forall>m \<in> set (messages_tbl s). msg_ok m)"

text \<open>
  The run continued: the client forces a new code at time 300.
\<close>

definition example_recoded :: db where
  "example_recoded =
     snd (generate_code example_ext example_rnd ''c2'' ''s2'' 300 (Some ''c1'') (Some ''s1'') ''url''
            JNull None True example_linked)"



text \<open>
  The string drawn at the attempt \<open>i\<close> of \<open>_generate_code\<close>, and the test that a
  string is the unexpired code of some row.
\<close>

definition attempt :: "(nat \<Rightarrow> nat \<Rightarrow> nat) \<Rightarrow> nat \<Rightarrow> string" where
  "attempt rnd i = choices (rnd i) (ascii_letters @ digits) 9"

definition taken :: "LinkedTokens list \<Rightarrow> int \<Rightarrow> string \<Rightarrow> bool" where
  "taken toks now c \<longleftrightarrow> (\<exists>r \<in> set toks. code_unexpired now c r)"

text \<open>
  A random source that draws the same string at every attempt, the state after a first
  code was issued from it, and the state with a second client after the first run.
\<close>

definition example_rnd0 :: "nat \<Rightarrow> nat \<Rightarrow> nat" where
  "example_rnd0 i j = 0"

definition example_full :: db where
  "example_full =
     snd (generate_code example_ext example_rnd0 ''c1'' ''s1'' 100 None None ''url'' JNull None
            False empty_db)"

definition example_two :: db where
  "example_two =
     snd (generate_code example_ext example_rnd ''c2'' ''s2'' 100 None None ''url'' JNull None
            False example_coded)"

section \<open>Properties\<close>

lemma send_init_messages_eq:
  "send_init_messages x u s =
     s\<lparr>messages_tbl := messages_tbl s @ init_rows (messages_seq s) [x] u,
       messages_seq := messages_seq s + 2\<rparr>"
  by (simp add: send_init_messages_def add_LinkedMessage_def)

lemma fan_out_eq:
  "fan_out xs u s =
     s\<lparr>messages_tbl := messages_tbl s @ init_rows (messages_seq s) xs u,
       messages_seq := messages_seq s + 2 * int (length xs)\<rparr>"
proof (induction xs arbitrary: s)
  case Nil
  show ?case by simp
next
  case (Cons x xs)
  show ?case
    by (simp add: Cons.IH send_init_messages_eq algebra_simps)
qed

lemma init_rows_types:
  "m \<in> set (init_rows n xs u) \<Longrightarrow> msg_type m = NETWORK \<or> msg_type m = ACCOUNTS"
  by (induction xs arbitrary: n) auto

lemma find_Some_mem: "find P xs = Some x \<Longrightarrow> x \<in> set xs \<and> P x"
  by (auto simp: find_Some_iff)

lemma reach_example_coded: "reach 100 example_coded"
  unfolding example_coded_def by (rule reach.requestCode [OF reach.start])

lemma reach_example_linked: "reach 200 example_linked"
proof -
  have "reach 200 example_coded"
    using reach_example_coded by (rule reach.tick) simp
  then show ?thesis
    unfolding example_linked_def by (rule reach.completeLink)
qed

lemma reach_example_unlinked: "reach 200 example_unlinked"
  unfolding example_unlinked_def by (rule reach.unlinkClient [OF reach_example_linked])

text \<open>
  C1. When \<open>link_wallet\<close> finds a record \<open>u\<close> by an unexpired code, it returns the
  success tuple, whose third component is the pending call that was stored on \<open>u\<close>. In
  the database after the call the row of \<open>u\<close> is there, and every row with its key has no
  code, is linked, holds the caller's wallet token, the given rpc and accounts, the time
  of the call as \<open>linked_at\<close>, and no pending call. The other rows are rows of the
  database before. The pending call goes nowhere else: the wallet mailbox is as before,
  and the client mailbox only grows by \<open>NETWORK\<close> and \<open>ACCOUNTS\<close> rows.
\<close>

theorem link_wallet_success:
  assumes "find (code_unexpired now c) (tokens_tbl s) = Some u"
  shows "\<exists>s'. link_wallet X now wallet c rpc accounts s =
             (Inr (current_return_url u, True, pending_call u, u_to_usable_info X (app_info u),
                   u_hash_id X (tok_id u) (client_token u), to_js_timestamp X now), s')
           \<and> (\<exists>r \<in> set (tokens_tbl s'). tok_id r = tok_id u)
           \<and> (\<forall>r \<in> set (tokens_tbl s'). tok_id r = tok_id u \<longrightarrow>
                 code r = None \<and> linked r \<and> wallet_token r = Some wallet \<and> current_rpc r = rpc \<and>
                 current_accounts r = accounts \<and> linked_at r = Some now \<and> pending_call r = JNull)
           \<and> (\<forall>r \<in> set (tokens_tbl s'). tok_id r \<noteq> tok_id u \<longrightarrow> r \<in> set (tokens_tbl s))
           \<and> wallet_tbl s' = wallet_tbl s
           \<and> (\<exists>new. messages_tbl s' = messages_tbl s @ new \<and>
                 (\<forall>m \<in> set new. msg_type m = NETWORK \<or> msg_type m = ACCOUNTS))"
proof -
  from assms have u: "u \<in> set (tokens_tbl s)"
    by (simp add: find_Some_mem)
  define u' where "u' = u\<lparr>wallet_token := Some wallet, code := None, linked := True,
                             current_rpc := rpc, current_accounts := accounts,
                             linked_at := Some now, pending_call := JNull\<rparr>"
  define s1 where "s1 = update_LinkedTokens u' s"
  define s2 where "s2 = (if tok_id u' \<noteq> 0
                     then fan_out (filter (\<lambda>x. linked_id x = tok_id u') (sessions_tbl s1)) u' s1
                     else s1)"
  have res: "link_wallet X now wallet c rpc accounts s =
             (Inr (current_return_url u, True, pending_call u, u_to_usable_info X (app_info u),
                   u_hash_id X (tok_id u) (client_token u), to_js_timestamp X now), s2)"
    using assms by (simp add: link_wallet_def s2_def s1_def u'_def Let_def)
  have toks: "tokens_tbl s2 = map (\<lambda>r. if tok_id r = tok_id u then u' else r) (tokens_tbl s)"
    by (simp add: s2_def s1_def fan_out_eq update_LinkedTokens_def u'_def)
  have wal: "wallet_tbl s2 = wallet_tbl s"
    by (simp add: s2_def s1_def fan_out_eq update_LinkedTokens_def)
  have msgs: "\<exists>new. messages_tbl s2 = messages_tbl s @ new \<and>
                 (\<forall>m \<in> set new. msg_type m = NETWORK \<or> msg_type m = ACCOUNTS)"
  proof (cases "tok_id u' \<noteq> 0")
    case True
    then have "messages_tbl s2 = messages_tbl s @
        init_rows (messages_seq s1) (filter (\<lambda>x. linked_id x = tok_id u') (sessions_tbl s1)) u'"
      by (simp add: s2_def fan_out_eq s1_def update_LinkedTokens_def)
    then show ?thesis
      using init_rows_types by blast
  next
    case False
    then have "messages_tbl s2 = messages_tbl s @ []"
      by (simp add: s2_def s1_def update_LinkedTokens_def)
    then show ?thesis
      by (metis empty_iff list.set(1))
  qed
  have ex: "\<exists>r \<in> set (tokens_tbl s2). tok_id r = tok_id u"
  proof -
    have "u' \<in> set (tokens_tbl s2)"
      unfolding toks using u by (force simp: image_iff)
    moreover have "tok_id u' = tok_id u"
      by (simp add: u'_def)
    ultimately show ?thesis by blast
  qed
  have upd: "\<forall>r \<in> set (tokens_tbl s2). tok_id r = tok_id u \<longrightarrow>
                 code r = None \<and> linked r \<and> wallet_token r = Some wallet \<and> current_rpc r = rpc \<and>
                 current_accounts r = accounts \<and> linked_at r = Some now \<and> pending_call r = JNull"
    by (auto simp: toks u'_def)
  have rest: "\<forall>r \<in> set (tokens_tbl s2). tok_id r \<noteq> tok_id u \<longrightarrow> r \<in> set (tokens_tbl s)"
    by (auto simp: toks u'_def)
  from res ex upd rest wal msgs show ?thesis
    by blast
qed

theorem link_wallet_success_witness:
  "find (code_unexpired 200 ''abcdefghi'') (tokens_tbl example_coded) =
     Some (hd (tokens_tbl example_coded)) \<and>
   fst (link_wallet example_ext 200 ''w'' ''abcdefghi'' (JStr ''rpc'') (JArr [JStr ''0xa''])
          example_coded) =
     Inr (Some ''url'', True, JNull, JNull, ''0000000000000000'', 0) \<and>
   map (\<lambda>r. (tok_id r, code r, linked r, wallet_token r, pending_call r))
     (tokens_tbl example_linked) = [(1, None, True, Some ''w'', JNull)]"
proof -
  have h: "find (code_unexpired 200 ''abcdefghi'') (tokens_tbl example_coded) =
             Some (hd (tokens_tbl example_coded))"
    by code_simp
  have e: "map (\<lambda>r. (tok_id r, code r, linked r, wallet_token r, pending_call r))
             (tokens_tbl example_linked) = [(1, None, True, Some ''w'', JNull)]"
    by code_simp
  have f: "hd (tokens_tbl example_coded) =
             \<lparr>tok_id = 1, client_token = ''c1'', code = Some ''abcdefghi'',
              code_expires = Some 3600000100, linked = False, wallet_token = None,
              current_rpc = JNull, current_accounts = JNull, pending_call = JNull,
              app_info = None, linked_at = None, current_return_url = Some ''url''\<rparr>"
    by code_simp
  have g: "u_hash_id example_ext 1 ''c1'' = ''0000000000000000''"
    by code_simp
  have g2: "to_js_timestamp example_ext 200 = 0"
    by code_simp
  show ?thesis
    using link_wallet_success [OF h, of example_ext "''w''" "JStr ''rpc''" "JArr [JStr ''0xa'']"] h e
    by (auto simp: f g g2 u_to_usable_info_def)
qed

text \<open>
  C2. When no record holds the given code with an expiry after the time of the call (the
  code is unknown or expired), \<open>link_wallet\<close> returns its failure tuple, with the flag
  \<open>False\<close>, as a value and not as an exception, and the database after the call is the
  database before it.
\<close>

theorem link_wallet_unknown_code:
  assumes "\<forall>r \<in> set (tokens_tbl s). \<not> code_unexpired now c r"
  shows "link_wallet X now wallet c rpc accounts s =
           (Inr (Some [], False, JNull, JNull, [], 0), s)"
proof -
  from assms have "find (code_unexpired now c) (tokens_tbl s) = None"
    by (simp add: find_None_iff)
  then show ?thesis
    by (simp add: link_wallet_def)
qed

theorem link_wallet_unknown_code_witness:
  "\<not> (\<exists>r \<in> set (tokens_tbl example_coded). code_unexpired 200 ''zzzzzzzzz'' r) \<and>
   link_wallet example_ext 200 ''w'' ''zzzzzzzzz'' (JStr ''rpc'') (JArr []) example_coded =
     (Inr (Some [], False, JNull, JNull, [], 0), example_coded) \<and>
   \<not> (\<exists>r \<in> set (tokens_tbl example_coded). code_unexpired 3600000100 ''abcdefghi'' r) \<and>
   link_wallet example_ext 3600000100 ''w'' ''abcdefghi'' (JStr ''rpc'') (JArr []) example_coded =
     (Inr (Some [], False, JNull, JNull, [], 0), example_coded)"
proof -
  have h1: "\<forall>r \<in> set (tokens_tbl example_coded). \<not> code_unexpired 200 ''zzzzzzzzz'' r"
    by code_simp
  have h2: "\<forall>r \<in> set (tokens_tbl example_coded). \<not> code_unexpired 3600000100 ''abcdefghi'' r"
    by code_simp
  show ?thesis
    using h1 h2 link_wallet_unknown_code [OF h1] link_wallet_unknown_code [OF h2]
    by simp
qed

text \<open>
  C10. \<open>call_wallet\<close> with a non-empty client token that resolves to a linked record
  and a session token that resolves to no session of that record raises: the metadata
  extraction may raise first, and otherwise the read of \<open>session_obj.session_token\<close> on
  \<open>None\<close> raises. It does not return \<open>False\<close>, and the database, the wallet mailbox
  included, is unchanged.
\<close>

theorem call_wallet_unknown_session:
  assumes "ct \<noteq> []"
    and "find (\<lambda>r. client_token r = ct \<and> linked r) (tokens_tbl s) = Some linked_obj"
    and "find (\<lambda>x. linked_id x = tok_id linked_obj \<and> session_token x = st) (sessions_tbl s) = None"
  shows "call_wallet X ct st accounts call_id call return_url s =
           (Inl (case u_get_meta X (current_rpc linked_obj) call of
                   Inl e \<Rightarrow> e | Inr meta \<Rightarrow> AttributeError), s)"
  using assms by (simp add: call_wallet_def split: sum.splits)

theorem call_wallet_unknown_session_witness:
  "find (\<lambda>r. client_token r = ''c1'' \<and> linked r) (tokens_tbl example_linked) =
     Some (hd (tokens_tbl example_linked)) \<and>
   find (\<lambda>x. linked_id x = tok_id (hd (tokens_tbl example_linked)) \<and> session_token x = ''nosuch'')
     (sessions_tbl example_linked) = None \<and>
   call_wallet example_ext ''c1'' ''nosuch'' [''0xa''] (JStr ''c2'') JNull None example_linked =
     (Inl AttributeError, example_linked)"
proof -
  have h1: "''c1'' \<noteq> []" by simp
  have h2: "find (\<lambda>r. client_token r = ''c1'' \<and> linked r) (tokens_tbl example_linked) =
     Some (hd (tokens_tbl example_linked))"
    by code_simp
  have h3: "find (\<lambda>x. linked_id x = tok_id (hd (tokens_tbl example_linked)) \<and> session_token x = ''nosuch'')
     (sessions_tbl example_linked) = None"
    by code_simp
  have m: "u_get_meta example_ext (current_rpc (hd (tokens_tbl example_linked))) JNull = Inr []"
    by (simp add: u_get_meta_def)
  show ?thesis
    using call_wallet_unknown_session [OF h1 h2 h3, of example_ext "[''0xa'']" "JStr ''c2''" JNull None] h2 h3
    by (simp add: m)
qed

text \<open>
  C5. \<open>wallet_called\<close> looks up the session and the row of its pairing record and
  compares the wallet token, and never reads the flag \<open>linked\<close> of the record. In the
  reachable state after the client has unlinked, the record of session \<open>s1\<close> is not
  linked and still holds the wallet token: \<open>call_wallet\<close> and \<open>link_messages\<close> treat
  the client as not linked, and \<open>wallet_called\<close> with that token does not raise but
  returns \<open>True\<close> and appends the \<open>CALL_RESPONSE\<close> row.
\<close>

theorem wallet_called_unlinked_record:
  "reach 200 example_unlinked \<and>
   map linked (tokens_tbl example_unlinked) = [False] \<and>
   map (\<lambda>x. (session_token x, linked_id x)) (sessions_tbl example_unlinked) = [(''s1'', 1)] \<and>
   map tok_id (tokens_tbl example_unlinked) = [1] \<and>
   call_wallet example_ext ''c1'' ''s1'' [''0xa''] (JStr ''c2'') JNull None example_unlinked =
     (Inr False, example_unlinked) \<and>
   link_messages (\<lambda>rows. rows) ''u1'' ''c1'' (Some ''s1'') None example_unlinked =
     (Inr (''c1'', Some ''s1'', [], False), example_unlinked) \<and>
   fst (wallet_called ''w'' (JStr ''c2'') ''s1'' (JStr ''ok'') example_unlinked) = Inr True \<and>
   messages_tbl (snd (wallet_called ''w'' (JStr ''c2'') ''s1'' (JStr ''ok'') example_unlinked)) =
     messages_tbl example_unlinked @
       [\<lparr>msg_id = 3, session_id = 1, msg_type = CALL_RESPONSE,
         msg_data = JObj [(''call_id'', JStr ''c2''), (''result'', JStr ''ok'')]\<rparr>]"
proof -
  have a: "map linked (tokens_tbl example_unlinked) = [False]"
    by code_simp
  have b: "map (\<lambda>x. (session_token x, linked_id x)) (sessions_tbl example_unlinked) = [(''s1'', 1)]"
    by code_simp
  have c: "map tok_id (tokens_tbl example_unlinked) = [1]"
    by code_simp
  have n: "find (\<lambda>r. client_token r = ''c1'' \<and> linked r) (tokens_tbl example_unlinked) = None"
    by code_simp
  have d: "call_wallet example_ext ''c1'' ''s1'' [''0xa''] (JStr ''c2'') JNull None example_unlinked =
     (Inr False, example_unlinked)"
    by (simp add: call_wallet_def n)
  have f: "find (\<lambda>r. client_token r = ''c1'') (tokens_tbl example_unlinked) =
             Some (hd (tokens_tbl example_unlinked))"
    by code_simp
  have f': "\<not> linked (hd (tokens_tbl example_unlinked))"
    by code_simp
  have e: "link_messages (\<lambda>rows. rows) ''u1'' ''c1'' (Some ''s1'') None example_unlinked =
     (Inr (''c1'', Some ''s1'', [], False), example_unlinked)"
    by (simp add: link_messages_def f f')
  have g: "fst (wallet_called ''w'' (JStr ''c2'') ''s1'' (JStr ''ok'') example_unlinked) = Inr True"
    by code_simp
  have h: "messages_tbl (snd (wallet_called ''w'' (JStr ''c2'') ''s1'' (JStr ''ok'') example_unlinked)) =
     messages_tbl example_unlinked @
       [\<lparr>msg_id = 3, session_id = 1, msg_type = CALL_RESPONSE,
         msg_data = JObj [(''call_id'', JStr ''c2''), (''result'', JStr ''ok'')]\<rparr>]"
    by code_simp
  show ?thesis
    by (intro conjI) (rule reach_example_unlinked a b c d e g h)+
qed

text \<open>
  C6. For a non-empty client token that matches no record, \<open>link_messages\<close> returns the
  empty client token with no messages and \<open>False\<close>, \<open>call_wallet\<close> returns \<open>False\<close> and
  \<open>unlink\<close> returns \<open>True\<close>, each leaving the database unchanged; \<open>generate_code\<close>
  does not return: its lookup gives \<open>None\<close> and the read of \<open>linked_obj.linked\<close> raises.
\<close>

theorem generate_code_unknown_client_token:
  assumes "ct \<noteq> []" and "\<forall>r \<in> set (tokens_tbl s). client_token r \<noteq> ct"
  shows "generate_code X rnd uuid_client uuid_session now (Some ct) st return_url pending
           user_agent force_relink s = (Inl AttributeError, s)
       \<and> link_messages scan uuid ct st last_message_id s = (Inr ([], None, [], False), s)
       \<and> call_wallet X ct st' accounts call_id call opt_url s = (Inr False, s)
       \<and> unlink ct s = (Inr True, s)"
proof -
  from assms(2) have n: "find (\<lambda>r. client_token r = ct) (tokens_tbl s) = None"
    by (simp add: find_None_iff)
  from assms(2) have n2: "find (\<lambda>r. client_token r = ct \<and> linked r) (tokens_tbl s) = None"
    by (auto simp: find_None_iff)
  show ?thesis
    using assms(1) n n2
    by (simp add: generate_code_def link_messages_def call_wallet_def unlink_def)
qed

theorem generate_code_unknown_client_token_witness:
  "\<not> (\<exists>r \<in> set (tokens_tbl example_coded). client_token r = ''nosuch'') \<and>
   generate_code example_ext example_rnd ''u1'' ''u2'' 300 (Some ''nosuch'') None ''url'' JNull None
     False example_coded = (Inl AttributeError, example_coded) \<and>
   link_messages (\<lambda>rows. rows) ''u1'' ''nosuch'' None None example_coded =
     (Inr ([], None, [], False), example_coded) \<and>
   call_wallet example_ext ''nosuch'' ''s1'' [''0xa''] (JStr ''c2'') JNull None example_coded =
     (Inr False, example_coded) \<and>
   unlink ''nosuch'' example_coded = (Inr True, example_coded)"
proof -
  have h1: "''nosuch'' \<noteq> []" by simp
  have h2: "\<forall>r \<in> set (tokens_tbl example_coded). client_token r \<noteq> ''nosuch''"
    by code_simp
  show ?thesis
    using generate_code_unknown_client_token [OF h1 h2, of example_ext example_rnd "''u1''" "''u2''" 300
        None "''url''" JNull None False "\<lambda>rows. rows" "''u1''" None "''s1''" "[''0xa'']" "JStr ''c2''" JNull None] h2
    by simp
qed

lemma finite_short_strings: "finite {s :: string. length s \<le> n}"
  using finite_lists_length_le [of "UNIV :: char set" n] by simp

lemma u_hash_id_not_inj: "\<not> inj (u_hash_id X i)"
proof
  assume inj: "inj (u_hash_id X i)"
  have "range (u_hash_id X i) \<subseteq> {s. length s \<le> 16}"
    by (auto simp: u_hash_id_def)
  then have "finite (range (u_hash_id X i))"
    using finite_short_strings finite_subset by blast
  then have "finite (UNIV :: string set)"
    using inj by (rule finite_imageD)
  then show False
    by (simp add: infinite_UNIV_listI)
qed

text \<open>
  The output of \<open>_hash_id\<close> has at most 16 characters, whatever the digest: for every
  id some two distinct keys have the same output. The proof is by counting and names no
  such pair.
\<close>

lemma u_hash_id_collision:
  "\<forall>X i. \<exists>a b. a \<noteq> b \<and> u_hash_id X i a = u_hash_id X i b"
proof (intro allI)
  fix X i
  from u_hash_id_not_inj [of X i] show "\<exists>a b. a \<noteq> b \<and> u_hash_id X i a = u_hash_id X i b"
    unfolding inj_def by blast
qed

lemma code_unexpired_mono: "code_unexpired t' c r \<Longrightarrow> t \<le> t' \<Longrightarrow> code_unexpired t c r"
  by (auto simp: code_unexpired_def split: option.splits)

lemma codes_ok_mono: "codes_ok t toks \<Longrightarrow> t \<le> t' \<Longrightarrow> codes_ok t' toks"
  unfolding codes_ok_def by (meson code_unexpired_mono)

lemma db_inv_tick: "db_inv t s \<Longrightarrow> t \<le> t' \<Longrightarrow> db_inv t' s"
  using codes_ok_mono [of t "tokens_tbl s" t'] by (simp add: db_inv_def)

lemma db_inv_empty: "db_inv t empty_db"
  by (simp add: db_inv_def keys_ok_def codes_ok_def empty_db_def)

lemma db_inv_add_LinkedMessage:
  assumes "db_inv t s"
    and "ty = NETWORK \<or> ty = ACCOUNTS \<or>
         (ty = CALL_RESPONSE \<and> (\<exists>c r. d = JObj [(''call_id'', c), (''result'', r)]))"
  shows "db_inv t (add_LinkedMessage sid ty d s)"
proof -
  from assms(1) have k: "keys_ok s"
    by (simp add: db_inv_def)
  have "keys_ok (add_LinkedMessage sid ty d s)"
    using k by (fastforce simp: keys_ok_def add_LinkedMessage_def)
  moreover have "\<forall>m \<in> set (messages_tbl (add_LinkedMessage sid ty d s)). msg_ok m"
    using assms by (auto simp: db_inv_def add_LinkedMessage_def msg_ok_def)
  ultimately show ?thesis
    using assms(1) by (simp add: db_inv_def add_LinkedMessage_def)
qed

lemma db_inv_send_init_messages: "db_inv t s \<Longrightarrow> db_inv t (send_init_messages x u s)"
  by (simp add: send_init_messages_def db_inv_add_LinkedMessage)

lemma db_inv_fan_out: "db_inv t s \<Longrightarrow> db_inv t (fan_out xs u s)"
  by (induction xs arbitrary: s) (simp_all add: db_inv_send_init_messages)

lemma db_inv_generate_init_session:
  assumes "db_inv t s"
  shows "db_inv t (snd (generate_init_session uuid obj s))"
proof -
  let ?x = "\<lparr>sess_id = sessions_seq s, session_token = uuid, linked_id = tok_id obj\<rparr>"
  let ?s1 = "s\<lparr>sessions_tbl := sessions_tbl s @ [?x], sessions_seq := sessions_seq s + 1\<rparr>"
  from assms have "keys_ok s"
    by (simp add: db_inv_def)
  then have "keys_ok ?s1"
    by (fastforce simp: keys_ok_def)
  with assms have "db_inv t ?s1"
    by (simp add: db_inv_def)
  then show ?thesis
    by (simp add: generate_init_session_def Let_def db_inv_send_init_messages)
qed

lemma db_inv_filter_messages:
  assumes "db_inv t s"
  shows "db_inv t (s\<lparr>messages_tbl := filter P (messages_tbl s)\<rparr>)"
proof -
  from assms have k: "keys_ok s"
    by (simp add: db_inv_def)
  have "distinct (map msg_id (filter P (messages_tbl s)))"
    using k by (simp add: keys_ok_def distinct_map_filter)
  with k have "keys_ok (s\<lparr>messages_tbl := filter P (messages_tbl s)\<rparr>)"
    by (simp add: keys_ok_def)
  with assms show ?thesis
    by (simp add: db_inv_def)
qed

lemma db_inv_wallet_tbl: "db_inv t (s\<lparr>wallet_tbl := w\<rparr>) = db_inv t s"
  by (simp add: db_inv_def keys_ok_def)

lemma db_inv_add_WalletMessage: "db_inv t (add_WalletMessage w a ty d s) = db_inv t s"
  by (simp add: db_inv_def keys_ok_def add_WalletMessage_def)

lemma db_inv_update_LinkedTokens:
  assumes inv: "db_inv t s"
    and ok: "rec_ok obj"
    and fresh: "\<forall>c. code_unexpired t c obj \<longrightarrow>
                 (\<forall>r \<in> set (tokens_tbl s). code_unexpired t c r \<longrightarrow> tok_id r = tok_id obj)"
  shows "db_inv t (update_LinkedTokens obj s)"
proof -
  let ?f = "\<lambda>r. if tok_id r = tok_id obj then obj else r"
  have ids: "map tok_id (map ?f (tokens_tbl s)) = map tok_id (tokens_tbl s)"
    by (induction "tokens_tbl s") auto
  have idf: "\<And>r. tok_id (?f r) = tok_id r"
    by simp
  from inv have k: "keys_ok s"
    by (simp add: db_inv_def)
  have "\<forall>r \<in> set (map ?f (tokens_tbl s)). 0 < tok_id r \<and> tok_id r < tokens_seq s"
  proof
    fix r assume "r \<in> set (map ?f (tokens_tbl s))"
    then obtain r0 where r0: "r0 \<in> set (tokens_tbl s)" "r = ?f r0"
      by auto
    then have "tok_id r = tok_id r0"
      using idf by metis
    with k r0(1) show "0 < tok_id r \<and> tok_id r < tokens_seq s"
      by (simp add: keys_ok_def)
  qed
  with k ids have k': "keys_ok (update_LinkedTokens obj s)"
    by (simp add: keys_ok_def update_LinkedTokens_def del: map_map)
  have r': "\<forall>r \<in> set (tokens_tbl (update_LinkedTokens obj s)). rec_ok r"
    using inv ok by (auto simp: db_inv_def update_LinkedTokens_def)
  have c': "codes_ok t (map ?f (tokens_tbl s))"
    unfolding codes_ok_def
  proof (intro ballI allI impI)
    fix r1 r2 c
    assume m1: "r1 \<in> set (map ?f (tokens_tbl s))" and m2: "r2 \<in> set (map ?f (tokens_tbl s))"
      and a: "code_unexpired t c r1 \<and> code_unexpired t c r2"
    from m1 obtain q1 where q1: "q1 \<in> set (tokens_tbl s)" "r1 = ?f q1" by auto
    from m2 obtain q2 where q2: "q2 \<in> set (tokens_tbl s)" "r2 = ?f q2" by auto
    from inv have co: "codes_ok t (tokens_tbl s)"
      by (simp add: db_inv_def)
    show "tok_id r1 = tok_id r2"
    proof (cases "tok_id q1 = tok_id obj")
      case True
      note t1 = True
      show ?thesis
      proof (cases "tok_id q2 = tok_id obj")
        case True
        with t1 q1 q2 show ?thesis by simp
      next
        case False
        with q2 have "r2 = q2" by simp
        moreover from t1 q1 have "r1 = obj" by simp
        ultimately show ?thesis
          using a fresh q2(1) by metis
      qed
    next
      case False
      note f1 = False
      then have e1: "r1 = q1" using q1 by simp
      show ?thesis
      proof (cases "tok_id q2 = tok_id obj")
        case True
        with q2 have "r2 = obj" by simp
        with e1 show ?thesis
          using a fresh q1(1) by metis
      next
        case False
        with q2 have "r2 = q2" by simp
        with e1 show ?thesis
          using a co q1(1) q2(1) unfolding codes_ok_def by blast
      qed
    qed
  qed
  from k' r' c' inv show ?thesis
    by (simp add: db_inv_def update_LinkedTokens_def)
qed

lemma db_inv_insert_LinkedTokens:
  assumes inv: "db_inv t s"
    and ok: "rec_ok obj"
    and fresh: "\<forall>c. code_unexpired t c obj \<longrightarrow>
                 (\<forall>r \<in> set (tokens_tbl s). \<not> code_unexpired t c r)"
  shows "db_inv t (snd (insert_LinkedTokens obj s))"
proof -
  let ?o = "obj\<lparr>tok_id := tokens_seq s\<rparr>"
  from inv have k: "keys_ok s"
    by (simp add: db_inv_def)
  have k': "keys_ok (snd (insert_LinkedTokens obj s))"
    using k by (fastforce simp: keys_ok_def insert_LinkedTokens_def Let_def)
  have ok': "rec_ok ?o"
    using ok by (simp add: rec_ok_def)
  have cu: "\<And>c. code_unexpired t c ?o = code_unexpired t c obj"
    by (simp add: code_unexpired_def)
  from inv have co: "codes_ok t (tokens_tbl s)"
    by (simp add: db_inv_def)
  have c': "codes_ok t (tokens_tbl s @ [?o])"
    using co fresh unfolding codes_ok_def
    by (auto simp: cu)
  from k' ok' c' inv show ?thesis
    by (simp add: db_inv_def insert_LinkedTokens_def Let_def)
qed

lemma code_unexpired_cong:
  "code r' = code r \<Longrightarrow> code_expires r' = code_expires r \<Longrightarrow>
   code_unexpired t c r' = code_unexpired t c r"
  by (simp add: code_unexpired_def)

lemma codes_ok_same_code:
  assumes "db_inv t s" and "u \<in> set (tokens_tbl s)"
    and "code u' = code u" and "code_expires u' = code_expires u" and "tok_id u' = tok_id u"
  shows "\<forall>c. code_unexpired t c u' \<longrightarrow>
           (\<forall>r \<in> set (tokens_tbl s). code_unexpired t c r \<longrightarrow> tok_id r = tok_id u')"
proof (intro allI impI ballI)
  fix c r
  assume "code_unexpired t c u'" and r: "r \<in> set (tokens_tbl s)" and "code_unexpired t c r"
  then have "code_unexpired t c u \<and> code_unexpired t c r"
    using assms(3,4) code_unexpired_cong by metis
  moreover from assms(1) have "codes_ok t (tokens_tbl s)"
    by (simp add: db_inv_def)
  ultimately have "tok_id r = tok_id u"
    using assms(2) r unfolding codes_ok_def by blast
  then show "tok_id r = tok_id u'"
    by (simp add: assms(5))
qed

lemma db_inv_link_wallet:
  assumes "db_inv t s"
  shows "db_inv t (snd (link_wallet X t wallet c rpc accounts s))"
proof (cases "find (code_unexpired t c) (tokens_tbl s)")
  case None
  with assms show ?thesis
    by (simp add: link_wallet_def)
next
  case (Some u)
  let ?u = "u\<lparr>wallet_token := Some wallet, code := None, linked := True, current_rpc := rpc,
               current_accounts := accounts, linked_at := Some t, pending_call := JNull\<rparr>"
  have "rec_ok ?u"
    by (simp add: rec_ok_def)
  moreover have "\<forall>c. \<not> code_unexpired t c ?u"
    by (simp add: code_unexpired_def)
  ultimately have "db_inv t (update_LinkedTokens ?u s)"
    using assms db_inv_update_LinkedTokens by blast
  then show ?thesis
    using Some by (simp add: link_wallet_def Let_def db_inv_fan_out)
qed

lemma db_inv_unlink:
  assumes "db_inv t s"
  shows "db_inv t (snd (unlink ct s))"
proof (cases "find (\<lambda>r. client_token r = ct) (tokens_tbl s)")
  case None
  with assms show ?thesis
    by (simp add: unlink_def)
next
  case (Some u)
  then have u: "u \<in> set (tokens_tbl s)"
    by (simp add: find_Some_mem)
  let ?u = "u\<lparr>linked := False\<rparr>"
  have "rec_ok ?u"
    using assms u by (simp add: rec_ok_def db_inv_def)
  moreover have "\<forall>c. code_unexpired t c ?u \<longrightarrow>
           (\<forall>r \<in> set (tokens_tbl s). code_unexpired t c r \<longrightarrow> tok_id r = tok_id ?u)"
    using assms u by (rule codes_ok_same_code) simp_all
  ultimately have "db_inv t (update_LinkedTokens ?u s)"
    using assms db_inv_update_LinkedTokens by blast
  then show ?thesis
    using Some assms by (simp add: unlink_def)
qed

lemma db_inv_unlink_wallet_loop:
  assumes "db_inv t s" and "set ls \<subseteq> set (tokens_tbl s)"
  shows "db_inv t (snd (unlink_wallet_loop X link_id ls s))"
  using assms(2)
proof (induction ls)
  case Nil
  with assms(1) show ?case by simp
next
  case (Cons l rest)
  then have l: "l \<in> set (tokens_tbl s)"
    by simp
  let ?l = "l\<lparr>linked := False, wallet_token := Some []\<rparr>"
  have "rec_ok ?l"
    by (simp add: rec_ok_def)
  moreover have "\<forall>c. code_unexpired t c ?l \<longrightarrow>
           (\<forall>r \<in> set (tokens_tbl s). code_unexpired t c r \<longrightarrow> tok_id r = tok_id ?l)"
    using assms(1) l by (rule codes_ok_same_code) simp_all
  ultimately have "db_inv t (update_LinkedTokens ?l s)"
    using assms(1) db_inv_update_LinkedTokens by blast
  then show ?case
    using Cons by simp
qed

lemma db_inv_unlink_wallet:
  assumes "db_inv t s"
  shows "db_inv t (snd (unlink_wallet X wallet link_id s))"
proof -
  have "set (filter (\<lambda>r. wallet_token r = Some wallet) (tokens_tbl s)) \<subseteq> set (tokens_tbl s)"
    by simp
  with assms have "db_inv t (snd (unlink_wallet_loop X link_id
      (filter (\<lambda>r. wallet_token r = Some wallet) (tokens_tbl s)) s))"
    by (rule db_inv_unlink_wallet_loop)
  then show ?thesis
    by (simp add: unlink_wallet_def case_prod_beta)
qed

lemma db_inv_wallet_called:
  assumes "db_inv t s"
  shows "db_inv t (snd (wallet_called wallet call_id st result s))"
  using assms
  by (simp add: wallet_called_def db_inv_add_LinkedMessage split: option.splits)

lemma db_inv_call_wallet:
  assumes "db_inv t s"
  shows "db_inv t (snd (call_wallet X ct st accounts call_id call return_url s))"
  using assms
  by (simp add: call_wallet_def Let_def db_inv_add_WalletMessage
      split: option.splits sum.splits list.splits)

lemma db_inv_wallet_messages:
  assumes "db_inv t s"
  shows "db_inv t (snd (wallet_messages scan wallet accounts last_message_id s))"
  using assms
  by (simp add: wallet_messages_def Let_def db_inv_wallet_tbl split: option.splits list.splits)

lemma db_inv_get_linked_messages:
  assumes "db_inv t s"
  shows "db_inv t (snd (get_linked_messages scan x last_message_id purge s))"
  using assms
  by (simp add: get_linked_messages_def Let_def db_inv_filter_messages split: option.splits)

lemma db_inv_link_messages:
  assumes "db_inv t s"
  shows "db_inv t (snd (link_messages scan uuid ct st last_message_id s))"
proof -
  have g: "\<And>lo s'. db_inv t s' \<Longrightarrow> db_inv t (snd (generate_init_session uuid lo s'))"
    by (rule db_inv_generate_init_session)
  have m: "\<And>x s'. db_inv t s' \<Longrightarrow>
             db_inv t (snd (get_linked_messages scan x last_message_id True s'))"
    by (rule db_inv_get_linked_messages)
  show ?thesis
    by (simp add: link_messages_def Let_def case_prod_beta assms g m
        split: option.splits sum.splits)
qed

lemma generate_code_attempts_fresh:
  "generate_code_attempts rnd toks now is = Inr c \<Longrightarrow> \<forall>r \<in> set toks. \<not> code_unexpired now c r"
  by (induction "is") (auto simp: Let_def filter_empty_conv split: if_splits)

lemma u_generate_code_fresh:
  "u_generate_code rnd toks now = Inr c \<Longrightarrow> \<forall>r \<in> set toks. \<not> code_unexpired now c r"
  unfolding u_generate_code_def by (rule generate_code_attempts_fresh)

lemma issue_code_cases:
  assumes "issue_code rnd now return_url user_agent force_relink toks lo = Inr obj"
  shows "(obj = lo \<and> linked lo) \<or>
         (\<not> linked obj \<and> tok_id obj = tok_id lo \<and> client_token obj = client_token lo \<and>
          pending_call obj = pending_call lo \<and>
          code_expires obj = Some (now + timedelta_minutes CODE_EXPIRATION_TIME_MINUTES) \<and>
          current_return_url obj = Some return_url \<and>
          (\<exists>c. u_generate_code rnd toks now = Inr c \<and> code obj = Some c))"
  using assms
  by (auto simp: issue_code_def Let_def split: if_splits sum.splits)

lemma db_inv_attach_pending_call:
  assumes "db_inv t s" and "obj \<in> set (tokens_tbl s)"
  shows "db_inv t (snd (attach_pending_call X pending st obj s))"
proof -
  have upd: "db_inv t (update_LinkedTokens (obj\<lparr>pending_call := p\<rparr>) s)" if "\<not> linked obj" for p
  proof -
    have "rec_ok (obj\<lparr>pending_call := p\<rparr>)"
      using that by (simp add: rec_ok_def)
    moreover have "\<forall>c. code_unexpired t c (obj\<lparr>pending_call := p\<rparr>) \<longrightarrow>
           (\<forall>r \<in> set (tokens_tbl s). code_unexpired t c r \<longrightarrow>
              tok_id r = tok_id (obj\<lparr>pending_call := p\<rparr>))"
      using assms by (rule codes_ok_same_code) simp_all
    ultimately show ?thesis
      using assms(1) db_inv_update_LinkedTokens by blast
  qed
  show ?thesis
    using assms(1) upd
    by (simp add: attach_pending_call_def Let_def split: json.splits sum.splits)
qed

lemma tokens_tbl_generate_init_session:
  "tokens_tbl (snd (generate_init_session uuid obj s)) = tokens_tbl s"
  by (simp add: generate_init_session_def Let_def send_init_messages_eq)

lemma db_inv_generate_code:
  assumes inv: "db_inv t s"
  shows "db_inv t (snd (generate_code X rnd uuid_client uuid_session t ct st return_url pending
                          user_agent force_relink s))"
proof -
  define fresh where "fresh = (\<not> truthy_str ct)"
  define client where "client = (if fresh then uuid_client else str_of ct)"
  define found where "found = (if fresh then Some (new_LinkedTokens client)
                   else find (\<lambda>r. client_token r = client) (tokens_tbl s))"
  have gc: "generate_code X rnd uuid_client uuid_session t ct st return_url pending user_agent
               force_relink s =
     (case found of
        None \<Rightarrow> (Inl AttributeError, s)
      | Some linked_obj \<Rightarrow>
          (case issue_code rnd t return_url user_agent force_relink (tokens_tbl s) linked_obj of
             Inl e \<Rightarrow> (Inl e, s)
           | Inr obj \<Rightarrow>
               (let (obj', s1) = (if fresh then insert_LinkedTokens obj s
                                  else (obj, update_LinkedTokens obj s));
                    (st', s2) =
                      (if truthy_str st \<and>
                          find (\<lambda>x. session_token x = str_of st \<and> linked_id x = tok_id obj')
                            (sessions_tbl s1) \<noteq> None
                       then (str_of st, s1)
                       else generate_init_session uuid_session obj' s1)
                in (case attach_pending_call X pending st' obj' s2 of
                      (Some e, s3) \<Rightarrow> (Inl e, s3)
                    | (None, s3) \<Rightarrow>
                        (Inr (client, st', if \<not> linked obj' then code obj' else Some [],
                              linked obj'), s3)))))"
    by (simp only: generate_code_def found_def client_def fresh_def Let_def)
  show ?thesis
  proof (cases found)
    case None
    then show ?thesis
      using inv by (simp add: gc)
  next
    case (Some lo)
    note lo = Some
    show ?thesis
    proof (cases "issue_code rnd t return_url user_agent force_relink (tokens_tbl s) lo")
      case (Inl e)
      then show ?thesis
        using inv lo by (simp add: gc)
    next
      case (Inr obj)
      define p1 where "p1 = (if fresh then insert_LinkedTokens obj s
                             else (obj, update_LinkedTokens obj s))"
      define p2 where "p2 = (if truthy_str st \<and>
                              find (\<lambda>x. session_token x = str_of st \<and> linked_id x = tok_id (fst p1))
                                (sessions_tbl (snd p1)) \<noteq> None
                           then (str_of st, snd p1)
                           else generate_init_session uuid_session (fst p1) (snd p1))"
      have res: "snd (generate_code X rnd uuid_client uuid_session t ct st return_url pending
                          user_agent force_relink s) =
                 snd (attach_pending_call X pending (fst p2) (fst p1) (snd p2))"
      proof -
        have "generate_code X rnd uuid_client uuid_session t ct st return_url pending
                user_agent force_relink s =
              (case attach_pending_call X pending (fst p2) (fst p1) (snd p2) of
                 (Some e, s3) \<Rightarrow> (Inl e, s3)
               | (None, s3) \<Rightarrow>
                   (Inr (client, fst p2, if \<not> linked (fst p1) then code (fst p1) else Some [],
                         linked (fst p1)), s3))"
          by (simp only: gc lo Inr p1_def p2_def Let_def case_prod_beta option.case sum.case)
        then show ?thesis
          by (simp split: prod.splits option.splits)
      qed
      have lo_in: "lo \<in> set (tokens_tbl s)" if "\<not> fresh"
        using lo that by (simp add: found_def find_Some_mem)
      have lo_new: "lo = new_LinkedTokens client" if fresh
        using lo that by (simp add: found_def)
      from issue_code_cases [OF Inr]
      have ok_fresh: "rec_ok obj \<and>
          (\<forall>c. code_unexpired t c obj \<longrightarrow>
             (\<forall>r \<in> set (tokens_tbl s). code_unexpired t c r \<longrightarrow> fresh \<or> tok_id r = tok_id obj))
          \<and> (fresh \<longrightarrow> (\<forall>c. code_unexpired t c obj \<longrightarrow>
                 (\<forall>r \<in> set (tokens_tbl s). \<not> code_unexpired t c r)))"
      proof (elim disjE conjE exE)
        assume e: "obj = lo" and l: "linked lo"
        then have nf: "\<not> fresh"
          using lo_new by (auto simp: new_LinkedTokens_def)
        then have m: "lo \<in> set (tokens_tbl s)"
          by (rule lo_in)
        with inv have "rec_ok lo"
          by (simp add: db_inv_def)
        moreover have "\<forall>c. code_unexpired t c lo \<longrightarrow>
           (\<forall>r \<in> set (tokens_tbl s). code_unexpired t c r \<longrightarrow> tok_id r = tok_id lo)"
          using inv m by (rule codes_ok_same_code) simp_all
        ultimately show ?thesis
          using e nf by simp
      next
        fix c
        assume nl: "\<not> linked obj" and g: "u_generate_code rnd (tokens_tbl s) t = Inr c"
          and c: "code obj = Some c"
        have "rec_ok obj"
          using nl by (simp add: rec_ok_def)
        moreover have "\<forall>c'. code_unexpired t c' obj \<longrightarrow>
                 (\<forall>r \<in> set (tokens_tbl s). \<not> code_unexpired t c' r)"
          using u_generate_code_fresh [OF g] c by (auto simp: code_unexpired_def)
        ultimately show ?thesis
          by blast
      qed
      have inv1: "db_inv t (snd p1)"
      proof (cases fresh)
        case True
        then show ?thesis
          using ok_fresh inv by (simp add: p1_def db_inv_insert_LinkedTokens)
      next
        case False
        then have "db_inv t (update_LinkedTokens obj s)"
          using ok_fresh inv db_inv_update_LinkedTokens [of t s obj] by blast
        with False show ?thesis
          by (simp add: p1_def)
      qed
      have mem1: "fst p1 \<in> set (tokens_tbl (snd p1))"
      proof (cases fresh)
        case True
        then show ?thesis
          by (simp add: p1_def insert_LinkedTokens_def Let_def)
      next
        case False
        from issue_code_cases [OF Inr] have "tok_id obj = tok_id lo"
          by auto
        with lo_in [OF False] have "obj \<in> set (tokens_tbl (update_LinkedTokens obj s))"
          by (force simp: update_LinkedTokens_def image_iff)
        with False show ?thesis
          by (simp add: p1_def)
      qed
      have inv2: "db_inv t (snd p2)"
        using inv1 by (simp add: p2_def db_inv_generate_init_session)
      have mem2: "fst p1 \<in> set (tokens_tbl (snd p2))"
        using mem1 by (simp add: p2_def tokens_tbl_generate_init_session)
      show ?thesis
        unfolding res using inv2 mem2 by (rule db_inv_attach_pending_call)
    qed
  qed
qed

lemma reach_db_inv: "reach t s \<Longrightarrow> db_inv t s"
proof (induction rule: reach.induct)
  case (start t)
  show ?case by (rule db_inv_empty)
next
  case (tick t s t')
  then show ?case by (simp add: db_inv_tick)
next
  case (requestCode t s X rnd uuid_client uuid_session ct st return_url pending user_agent force_relink)
  then show ?case by (simp add: db_inv_generate_code)
next
  case (completeLink t s X wallet c rpc accounts)
  then show ?case by (simp add: db_inv_link_wallet)
next
  case (pollClientMessages t s scan uuid ct st last_message_id)
  then show ?case by (simp add: db_inv_link_messages)
next
  case (pollWalletMessages t s scan' wallet accounts last_message_id)
  then show ?case by (simp add: db_inv_wallet_messages)
next
  case (submitCall t s X ct st accounts call_id call return_url)
  then show ?case by (simp add: db_inv_call_wallet)
next
  case (deliverResult t s wallet call_id st result)
  then show ?case by (simp add: db_inv_wallet_called)
next
  case (unlinkClient t s ct)
  then show ?case by (simp add: db_inv_unlink)
next
  case (unlinkByWallet t s X wallet link_id)
  then show ?case by (simp add: db_inv_unlink_wallet)
qed

text \<open>
  C7. In every state reachable by the operations, every pairing record satisfies: a
  code that is not null implies \<open>linked = False\<close>; \<open>linked = True\<close> implies a wallet token
  that is not null and a null code; and the pending call is null whenever
  \<open>linked = True\<close>.
\<close>

theorem reach_record_invariant:
  assumes "reach t s" and "r \<in> set (tokens_tbl s)"
  shows "(code r \<noteq> None \<longrightarrow> linked r = False) \<and>
         (linked r = True \<longrightarrow> wallet_token r \<noteq> None \<and> code r = None) \<and>
         (linked r = True \<longrightarrow> pending_call r = JNull)"
proof -
  from assms(1) have "db_inv t s"
    by (rule reach_db_inv)
  with assms(2) have "rec_ok r"
    by (simp add: db_inv_def)
  then show ?thesis
    by (simp add: rec_ok_def)
qed

theorem reach_record_invariant_witness:
  "reach 100 example_coded \<and> hd (tokens_tbl example_coded) \<in> set (tokens_tbl example_coded) \<and>
   code (hd (tokens_tbl example_coded)) \<noteq> None \<and> linked (hd (tokens_tbl example_coded)) = False \<and>
   reach 200 example_linked \<and> hd (tokens_tbl example_linked) \<in> set (tokens_tbl example_linked) \<and>
   linked (hd (tokens_tbl example_linked)) = True \<and>
   wallet_token (hd (tokens_tbl example_linked)) \<noteq> None \<and>
   code (hd (tokens_tbl example_linked)) = None \<and>
   pending_call (hd (tokens_tbl example_linked)) = JNull"
proof -
  have m1: "hd (tokens_tbl example_coded) \<in> set (tokens_tbl example_coded)"
    by code_simp
  have m2: "hd (tokens_tbl example_linked) \<in> set (tokens_tbl example_linked)"
    by code_simp
  have c1: "code (hd (tokens_tbl example_coded)) \<noteq> None"
    by code_simp
  have l2: "linked (hd (tokens_tbl example_linked)) = True"
    by code_simp
  show ?thesis
    using reach_record_invariant [OF reach_example_coded m1]
      reach_record_invariant [OF reach_example_linked m2]
      reach_example_coded reach_example_linked m1 m2 c1 l2
    by simp
qed

lemma init_rows_other:
  "sid \<notin> sess_id ` set xs \<Longrightarrow> filter (\<lambda>m. session_id m = sid) (init_rows n xs u) = []"
  by (induction xs arbitrary: n) auto

lemma init_rows_mine:
  assumes "distinct (map sess_id xs)" and "x \<in> set xs"
  shows "\<exists>k \<ge> n. filter (\<lambda>m. session_id m = sess_id x) (init_rows n xs u) =
           [\<lparr>msg_id = k, session_id = sess_id x, msg_type = NETWORK, msg_data = current_rpc u\<rparr>,
            \<lparr>msg_id = k + 1, session_id = sess_id x, msg_type = ACCOUNTS,
              msg_data = current_accounts u\<rparr>]"
  using assms
proof (induction xs arbitrary: n)
  case Nil
  then show ?case by simp
next
  case (Cons y ys)
  show ?case
  proof (cases "x = y")
    case True
    with Cons.prems have "sess_id x \<notin> sess_id ` set ys"
      by auto
    then have "filter (\<lambda>m. session_id m = sess_id x) (init_rows (n + 2) ys u) = []"
      by (rule init_rows_other)
    with True show ?thesis
      by (intro exI [of _ n]) simp
  next
    case False
    with Cons.prems have x: "x \<in> set ys" and ne: "sess_id y \<noteq> sess_id x" and d: "distinct (map sess_id ys)"
      by auto
    from Cons.IH [OF d x, of "n + 2"] obtain k where "k \<ge> n + 2"
      and "filter (\<lambda>m. session_id m = sess_id x) (init_rows (n + 2) ys u) =
           [\<lparr>msg_id = k, session_id = sess_id x, msg_type = NETWORK, msg_data = current_rpc u\<rparr>,
            \<lparr>msg_id = k + 1, session_id = sess_id x, msg_type = ACCOUNTS,
              msg_data = current_accounts u\<rparr>]"
      by blast
    with ne show ?thesis
      by (intro exI [of _ k]) simp
  qed
qed

lemma init_rows_ids: "m \<in> set (init_rows n xs u) \<Longrightarrow> n \<le> msg_id m"
  by (induction xs arbitrary: n) fastforce+

text \<open>
  C3. In a reachable state, a successful \<open>link_wallet\<close> keeps the rows of the client
  mailbox and appends new ones. For every session bound to the linked record, the new
  rows of that session are exactly one \<open>NETWORK\<close> row carrying the new rpc followed by
  one \<open>ACCOUNTS\<close> row carrying the new accounts; for every session bound to another
  record no row is appended. Every appended row has a key above the keys of all rows
  already there: a link after a re-issued code appends fresh rows again, carrying the
  values of that link.
\<close>

theorem link_wallet_fan_out:
  assumes "reach t s" and "find (code_unexpired now c) (tokens_tbl s) = Some u"
  shows "\<exists>new. messages_tbl (snd (link_wallet X now wallet c rpc accounts s)) = messages_tbl s @ new \<and>
           (\<forall>x \<in> set (sessions_tbl s). linked_id x = tok_id u \<longrightarrow>
              (\<exists>k. filter (\<lambda>m. session_id m = sess_id x) new =
                 [\<lparr>msg_id = k, session_id = sess_id x, msg_type = NETWORK, msg_data = rpc\<rparr>,
                  \<lparr>msg_id = k + 1, session_id = sess_id x, msg_type = ACCOUNTS,
                    msg_data = accounts\<rparr>])) \<and>
           (\<forall>x \<in> set (sessions_tbl s). linked_id x \<noteq> tok_id u \<longrightarrow>
              filter (\<lambda>m. session_id m = sess_id x) new = []) \<and>
           (\<forall>m \<in> set new. \<forall>m' \<in> set (messages_tbl s). msg_id m' < msg_id m)"
proof -
  from assms(1) have "db_inv t s"
    by (rule reach_db_inv)
  then have k: "keys_ok s"
    by (simp add: db_inv_def)
  from assms(2) have "u \<in> set (tokens_tbl s)"
    by (simp add: find_Some_mem)
  with k have nz: "tok_id u \<noteq> 0"
    by (auto simp: keys_ok_def)
  define u' where "u' = u\<lparr>wallet_token := Some wallet, code := None, linked := True,
                             current_rpc := rpc, current_accounts := accounts,
                             linked_at := Some now, pending_call := JNull\<rparr>"
  define bound where "bound = filter (\<lambda>x. linked_id x = tok_id u) (sessions_tbl s)"
  define new where "new = init_rows (messages_seq s) bound u'"
  have msgs: "messages_tbl (snd (link_wallet X now wallet c rpc accounts s)) = messages_tbl s @ new"
    using assms(2) nz
    by (simp add: link_wallet_def Let_def fan_out_eq update_LinkedTokens_def new_def bound_def
        u'_def)
  have d: "distinct (map sess_id bound)"
    using k by (simp add: keys_ok_def bound_def distinct_map_filter)
  have mine: "\<exists>k. filter (\<lambda>m. session_id m = sess_id x) new =
                 [\<lparr>msg_id = k, session_id = sess_id x, msg_type = NETWORK, msg_data = rpc\<rparr>,
                  \<lparr>msg_id = k + 1, session_id = sess_id x, msg_type = ACCOUNTS,
                    msg_data = accounts\<rparr>]"
    if "x \<in> set (sessions_tbl s)" and "linked_id x = tok_id u" for x
  proof -
    from that have "x \<in> set bound"
      by (simp add: bound_def)
    from init_rows_mine [OF d this, of "messages_seq s" u'] show ?thesis
      by (auto simp: new_def u'_def)
  qed
  have other: "filter (\<lambda>m. session_id m = sess_id x) new = []"
    if "x \<in> set (sessions_tbl s)" and "linked_id x \<noteq> tok_id u" for x
  proof -
    have "sess_id x \<notin> sess_id ` set bound"
    proof
      assume "sess_id x \<in> sess_id ` set bound"
      then obtain y where y: "y \<in> set (sessions_tbl s)" "linked_id y = tok_id u" "sess_id y = sess_id x"
        by (auto simp: bound_def)
      from k have "inj_on sess_id (set (sessions_tbl s))"
        by (simp add: keys_ok_def distinct_map)
      with y(1,3) that(1) have "y = x"
        by (auto dest: inj_onD)
      with y(2) that(2) show False
        by simp
    qed
    then show ?thesis
      unfolding new_def by (rule init_rows_other)
  qed
  have fresh: "\<forall>m \<in> set new. \<forall>m' \<in> set (messages_tbl s). msg_id m' < msg_id m"
  proof (intro ballI)
    fix m m'
    assume "m \<in> set new" and "m' \<in> set (messages_tbl s)"
    then have "messages_seq s \<le> msg_id m" and "msg_id m' < messages_seq s"
      using init_rows_ids k by (auto simp: new_def keys_ok_def)
    then show "msg_id m' < msg_id m"
      by simp
  qed
  from msgs mine other fresh show ?thesis
    by blast
qed

lemma reach_example_recoded: "reach 300 example_recoded"
proof -
  have "reach 300 example_linked"
    using reach_example_linked by (rule reach.tick) simp
  then show ?thesis
    unfolding example_recoded_def by (rule reach.requestCode)
qed

theorem link_wallet_fan_out_witness:
  "reach 300 example_recoded \<and>
   find (code_unexpired 400 ''abcdefghi'') (tokens_tbl example_recoded) =
     Some (hd (tokens_tbl example_recoded)) \<and>
   map (\<lambda>x. (sess_id x, linked_id x)) (sessions_tbl example_recoded) = [(1, 1)] \<and>
   tok_id (hd (tokens_tbl example_recoded)) = 1 \<and>
   messages_tbl example_recoded =
     [\<lparr>msg_id = 1, session_id = 1, msg_type = NETWORK, msg_data = JStr ''rpc''\<rparr>,
      \<lparr>msg_id = 2, session_id = 1, msg_type = ACCOUNTS, msg_data = JArr [JStr ''0xa'']\<rparr>] \<and>
   messages_tbl (snd (link_wallet example_ext 400 ''w'' ''abcdefghi'' (JStr ''rpc2'')
                        (JArr [JStr ''0xb'']) example_recoded)) =
     [\<lparr>msg_id = 1, session_id = 1, msg_type = NETWORK, msg_data = JStr ''rpc''\<rparr>,
      \<lparr>msg_id = 2, session_id = 1, msg_type = ACCOUNTS, msg_data = JArr [JStr ''0xa'']\<rparr>,
      \<lparr>msg_id = 3, session_id = 1, msg_type = NETWORK, msg_data = JStr ''rpc2''\<rparr>,
      \<lparr>msg_id = 4, session_id = 1, msg_type = ACCOUNTS, msg_data = JArr [JStr ''0xb'']\<rparr>]"
proof -
  have h: "find (code_unexpired 400 ''abcdefghi'') (tokens_tbl example_recoded) =
     Some (hd (tokens_tbl example_recoded))"
    by code_simp
  have a: "map (\<lambda>x. (sess_id x, linked_id x)) (sessions_tbl example_recoded) = [(1, 1)]"
    by code_simp
  have b: "tok_id (hd (tokens_tbl example_recoded)) = 1"
    by code_simp
  have c: "messages_tbl example_recoded =
     [\<lparr>msg_id = 1, session_id = 1, msg_type = NETWORK, msg_data = JStr ''rpc''\<rparr>,
      \<lparr>msg_id = 2, session_id = 1, msg_type = ACCOUNTS, msg_data = JArr [JStr ''0xa'']\<rparr>]"
    by code_simp
  have d: "messages_tbl (snd (link_wallet example_ext 400 ''w'' ''abcdefghi'' (JStr ''rpc2'')
                        (JArr [JStr ''0xb'']) example_recoded)) =
     [\<lparr>msg_id = 1, session_id = 1, msg_type = NETWORK, msg_data = JStr ''rpc''\<rparr>,
      \<lparr>msg_id = 2, session_id = 1, msg_type = ACCOUNTS, msg_data = JArr [JStr ''0xa'']\<rparr>,
      \<lparr>msg_id = 3, session_id = 1, msg_type = NETWORK, msg_data = JStr ''rpc2''\<rparr>,
      \<lparr>msg_id = 4, session_id = 1, msg_type = ACCOUNTS, msg_data = JArr [JStr ''0xb'']\<rparr>]"
    by code_simp
  show ?thesis
    using link_wallet_fan_out [OF reach_example_recoded h, of example_ext "''w''" "JStr ''rpc2''"
        "JArr [JStr ''0xb'']"] reach_example_recoded h a b c d
    by simp
qed








lemma attempt_length: "length (attempt rnd i) = 9"
  by (simp add: attempt_def choices_def)

lemma attempt_alphabet: "set (attempt rnd i) \<subseteq> set (ascii_letters @ digits)"
proof -
  have "length (ascii_letters @ digits) = 62"
    by (simp add: ascii_letters_def digits_def)
  then have "\<And>n. (ascii_letters @ digits) ! (n mod length (ascii_letters @ digits))
               \<in> set (ascii_letters @ digits)"
    by (intro nth_mem) simp
  then show ?thesis
    unfolding attempt_def choices_def by auto
qed

lemma generate_code_attempts_step:
  "generate_code_attempts rnd toks now (i # rest) =
     (if taken toks now (attempt rnd i) then generate_code_attempts rnd toks now rest
      else Inr (attempt rnd i))"
  by (auto simp: Let_def attempt_def taken_def filter_empty_conv)

lemma generate_code_attempts_upt:
  "generate_code_attempts rnd toks now [a..<b] =
     (if \<forall>i. a \<le> i \<and> i < b \<longrightarrow> taken toks now (attempt rnd i)
      then Inl (Exception ''We hit max retries without finding a none repreated code!'')
      else Inr (attempt rnd (LEAST i. a \<le> i \<and> i < b \<and> \<not> taken toks now (attempt rnd i))))"
proof (induction "b - a" arbitrary: a)
  case 0
  then show ?case by simp
next
  case (Suc n)
  then have ab: "a < b" and n: "n = b - Suc a"
    by simp_all
  have u: "[a..<b] = a # [Suc a..<b]"
    using ab by (simp add: upt_conv_Cons)
  show ?case
  proof (cases "taken toks now (attempt rnd a)")
    case False
    have "(LEAST i. a \<le> i \<and> i < b \<and> \<not> taken toks now (attempt rnd i)) = a"
      using False ab by (intro Least_equality) auto
    with False ab show ?thesis
      unfolding u generate_code_attempts_step by auto
  next
    case True
    have all: "(\<forall>i. a \<le> i \<and> i < b \<longrightarrow> taken toks now (attempt rnd i)) \<longleftrightarrow>
               (\<forall>i. Suc a \<le> i \<and> i < b \<longrightarrow> taken toks now (attempt rnd i))"
      using True by (metis Suc_leI le_neq_implies_less Suc_leD)
    have least: "(LEAST i. a \<le> i \<and> i < b \<and> \<not> taken toks now (attempt rnd i)) =
                 (LEAST i. Suc a \<le> i \<and> i < b \<and> \<not> taken toks now (attempt rnd i))"
    proof -
      have "\<And>i. (a \<le> i \<and> i < b \<and> \<not> taken toks now (attempt rnd i)) =
                 (Suc a \<le> i \<and> i < b \<and> \<not> taken toks now (attempt rnd i))"
        using True by (metis Suc_leI le_neq_implies_less Suc_leD)
      then show ?thesis by simp
    qed
    show ?thesis
      unfolding u generate_code_attempts_step using True Suc.hyps(1) [OF n]
      by (simp only: if_True all least)
  qed
qed

lemma u_generate_code_Inr:
  assumes "u_generate_code rnd toks now = Inr c"
  shows "length c = 9 \<and> set c \<subseteq> set (ascii_letters @ digits) \<and> \<not> taken toks now c \<and>
         (\<exists>i<10. c = attempt rnd i \<and> (\<forall>j<i. taken toks now (attempt rnd j)))"
proof -
  let ?P = "\<lambda>i. 0 \<le> i \<and> i < 10 \<and> \<not> taken toks now (attempt rnd i)"
  from assms have ex: "\<not> (\<forall>i. 0 \<le> i \<and> i < 10 \<longrightarrow> taken toks now (attempt rnd i))"
    and c: "c = attempt rnd (Least ?P)"
    unfolding u_generate_code_def generate_code_attempts_upt by (auto split: if_splits)
  from ex obtain k where k: "?P k"
    by blast
  then have l: "?P (Least ?P)"
    by (rule LeastI)
  have m: "\<forall>j < Least ?P. taken toks now (attempt rnd j)"
  proof (intro allI impI)
    fix j assume j: "j < Least ?P"
    then have "\<not> ?P j"
      by (rule not_less_Least)
    moreover from j l have "j < 10"
      by simp
    ultimately show "taken toks now (attempt rnd j)"
      by simp
  qed
  from l m c show ?thesis
    using attempt_length attempt_alphabet by blast
qed

lemma u_generate_code_Inl:
  assumes "u_generate_code rnd toks now = Inl e"
  shows "e = Exception ''We hit max retries without finding a none repreated code!'' \<and>
         (\<forall>i<10. taken toks now (attempt rnd i))"
  using assms unfolding u_generate_code_def generate_code_attempts_upt
  by (auto split: if_splits)

lemma attach_pending_call_keeps:
  assumes "obj \<in> set (tokens_tbl s)"
  shows "\<exists>r \<in> set (tokens_tbl (snd (attach_pending_call X pending st obj s))).
           client_token r = client_token obj \<and> code r = code obj \<and>
           code_expires r = code_expires obj"
proof -
  have "\<exists>r \<in> set (tokens_tbl (update_LinkedTokens (obj\<lparr>pending_call := p\<rparr>) s)).
           client_token r = client_token obj \<and> code r = code obj \<and>
           code_expires r = code_expires obj" for p
  proof -
    have "obj\<lparr>pending_call := p\<rparr> \<in> set (tokens_tbl (update_LinkedTokens (obj\<lparr>pending_call := p\<rparr>) s))"
      using assms by (force simp: update_LinkedTokens_def image_iff)
    then show ?thesis
      by (intro bexI [of _ "obj\<lparr>pending_call := p\<rparr>"]) simp_all
  qed
  then show ?thesis
    using assms
    by (auto simp: attach_pending_call_def Let_def split: json.splits sum.splits)
qed

lemma generate_code_issued:
  assumes res: "generate_code X rnd uuid_client uuid_session now ct st return_url pending
                  user_agent force_relink s = (Inr (client, st', Some c, False), s')"
  shows "u_generate_code rnd (tokens_tbl s) now = Inr c \<and>
         (\<exists>r \<in> set (tokens_tbl s'). client_token r = client \<and> code r = Some c \<and>
            code_expires r = Some (now + timedelta_minutes CODE_EXPIRATION_TIME_MINUTES))"
proof -
  define fresh where "fresh = (\<not> truthy_str ct)"
  define cl where "cl = (if fresh then uuid_client else str_of ct)"
  define found where "found = (if fresh then Some (new_LinkedTokens cl)
                   else find (\<lambda>r. client_token r = cl) (tokens_tbl s))"
  have gc: "generate_code X rnd uuid_client uuid_session now ct st return_url pending user_agent
               force_relink s =
     (case found of
        None \<Rightarrow> (Inl AttributeError, s)
      | Some linked_obj \<Rightarrow>
          (case issue_code rnd now return_url user_agent force_relink (tokens_tbl s) linked_obj of
             Inl e \<Rightarrow> (Inl e, s)
           | Inr obj \<Rightarrow>
               (let (obj', s1) = (if fresh then insert_LinkedTokens obj s
                                  else (obj, update_LinkedTokens obj s));
                    (st', s2) =
                      (if truthy_str st \<and>
                          find (\<lambda>x. session_token x = str_of st \<and> linked_id x = tok_id obj')
                            (sessions_tbl s1) \<noteq> None
                       then (str_of st, s1)
                       else generate_init_session uuid_session obj' s1)
                in (case attach_pending_call X pending st' obj' s2 of
                      (Some e, s3) \<Rightarrow> (Inl e, s3)
                    | (None, s3) \<Rightarrow>
                        (Inr (cl, st', if \<not> linked obj' then code obj' else Some [],
                              linked obj'), s3)))))"
    by (simp only: generate_code_def found_def cl_def fresh_def Let_def)
  from res gc obtain lo where lo: "found = Some lo"
    by (cases found) auto
  from res gc lo obtain obj
    where obj: "issue_code rnd now return_url user_agent force_relink (tokens_tbl s) lo = Inr obj"
    by (cases "issue_code rnd now return_url user_agent force_relink (tokens_tbl s) lo") auto
  define p1 where "p1 = (if fresh then insert_LinkedTokens obj s
                         else (obj, update_LinkedTokens obj s))"
  define p2 where "p2 = (if truthy_str st \<and>
                          find (\<lambda>x. session_token x = str_of st \<and> linked_id x = tok_id (fst p1))
                            (sessions_tbl (snd p1)) \<noteq> None
                       then (str_of st, snd p1)
                       else generate_init_session uuid_session (fst p1) (snd p1))"
  define p3 where "p3 = attach_pending_call X pending (fst p2) (fst p1) (snd p2)"
  have "generate_code X rnd uuid_client uuid_session now ct st return_url pending
                user_agent force_relink s =
              (case p3 of
                 (Some e, s3) \<Rightarrow> (Inl e, s3)
               | (None, s3) \<Rightarrow>
                   (Inr (cl, fst p2, if \<not> linked (fst p1) then code (fst p1) else Some [],
                         linked (fst p1)), s3))"
    by (simp only: gc lo obj p1_def p2_def p3_def Let_def case_prod_beta option.case sum.case)
  with res have out: "snd p3 = s'" "cl = client" "\<not> linked (fst p1)" "code (fst p1) = Some c"
    by (auto split: prod.splits option.splits if_splits)
  have f1: "client_token (fst p1) = client_token obj \<and> code (fst p1) = code obj \<and>
            code_expires (fst p1) = code_expires obj \<and> linked (fst p1) = linked obj"
    by (simp add: p1_def insert_LinkedTokens_def Let_def)
  have lo_in: "lo \<in> set (tokens_tbl s) \<and> client_token lo = cl" if "\<not> fresh"
    using lo that find_Some_mem [of "\<lambda>r. client_token r = cl" "tokens_tbl s" lo]
    by (simp add: found_def)
  have lo_cl: "client_token lo = cl"
    using lo lo_in by (cases fresh) (auto simp: found_def new_LinkedTokens_def)
  from issue_code_cases [OF obj] out(3) f1
  have iss: "tok_id obj = tok_id lo" "client_token obj = client_token lo"
    "code_expires obj = Some (now + timedelta_minutes CODE_EXPIRATION_TIME_MINUTES)"
    "\<exists>c0. u_generate_code rnd (tokens_tbl s) now = Inr c0 \<and> code obj = Some c0"
    by auto
  from iss(4) out(4) f1 have gen: "u_generate_code rnd (tokens_tbl s) now = Inr c"
    by auto
  have mem1: "fst p1 \<in> set (tokens_tbl (snd p1))"
  proof (cases fresh)
    case True
    then show ?thesis
      by (simp add: p1_def insert_LinkedTokens_def Let_def)
  next
    case False
    with lo_in iss(1) have "obj \<in> set (tokens_tbl (update_LinkedTokens obj s))"
      by (force simp: update_LinkedTokens_def image_iff)
    with False show ?thesis
      by (simp add: p1_def)
  qed
  then have mem2: "fst p1 \<in> set (tokens_tbl (snd p2))"
    by (simp add: p2_def tokens_tbl_generate_init_session)
  from attach_pending_call_keeps [OF mem2, of X pending "fst p2"]
  obtain r where r: "r \<in> set (tokens_tbl (snd p3))" "client_token r = client_token (fst p1)"
    "code r = code (fst p1)" "code_expires r = code_expires (fst p1)"
    unfolding p3_def by blast
  have "client_token r = client \<and> code r = Some c \<and>
        code_expires r = Some (now + timedelta_minutes CODE_EXPIRATION_TIME_MINUTES)"
    using r(2,3,4) f1 iss(2,3) lo_cl out(2,4) by simp
  with r(1) out(1) gen show ?thesis
    by blast
qed

lemma codes_ok_nth:
  assumes "keys_ok s" and "codes_ok t (tokens_tbl s)"
    and "i < j" and "j < length (tokens_tbl s)"
  shows "\<not> (code_unexpired t c (tokens_tbl s ! i) \<and> code_unexpired t c (tokens_tbl s ! j))"
proof
  assume a: "code_unexpired t c (tokens_tbl s ! i) \<and> code_unexpired t c (tokens_tbl s ! j)"
  from assms(3,4) have i: "i < length (tokens_tbl s)"
    by simp
  from assms(2) a i assms(4) have "tok_id (tokens_tbl s ! i) = tok_id (tokens_tbl s ! j)"
    unfolding codes_ok_def by (meson nth_mem)
  then have e: "map tok_id (tokens_tbl s) ! i = map tok_id (tokens_tbl s) ! j"
    using i assms(4) by simp
  from assms(1) have d: "distinct (map tok_id (tokens_tbl s))"
    by (simp add: keys_ok_def)
  have "i = j"
    using nth_eq_iff_index_eq [OF d, of i j] e i assms(4) by (simp del: nth_map)
  with assms(3) show False
    by simp
qed

text \<open>
  C8. \<open>_generate_code\<close> either returns a string of 9 characters of the alphanumeric
  alphabet that is the unexpired code of no row at that moment (the draw of the first
  attempt below 10 that met no unexpired code), or it raises its exception, and then
  each of the 10 attempts met an unexpired code. In every reachable state no two rows
  hold the same unexpired code. A call of \<open>generate_code\<close> that returns a code has
  stored it, drawn by \<open>_generate_code\<close> on the rows of that moment, on a row of the
  returned client token with an expiry 60 minutes (in microseconds) after the call.
\<close>

theorem u_generate_code_unique:
  "(\<forall>c. u_generate_code rnd toks now = Inr c \<longrightarrow>
      length c = 9 \<and> set c \<subseteq> set (ascii_letters @ digits) \<and> \<not> taken toks now c \<and>
      (\<exists>i<10. c = attempt rnd i \<and> (\<forall>j<i. taken toks now (attempt rnd j)))) \<and>
   (\<forall>e. u_generate_code rnd toks now = Inl e \<longrightarrow>
      e = Exception ''We hit max retries without finding a none repreated code!'' \<and>
      (\<forall>i<10. taken toks now (attempt rnd i))) \<and>
   (reach t s \<longrightarrow>
      (\<forall>i j c. i < j \<and> j < length (tokens_tbl s) \<longrightarrow>
         \<not> (code_unexpired t c (tokens_tbl s ! i) \<and> code_unexpired t c (tokens_tbl s ! j)))) \<and>
   (\<forall>client st' c s'.
      generate_code X rnd uuid_client uuid_session now ct st return_url pending user_agent
        force_relink s = (Inr (client, st', Some c, False), s') \<longrightarrow>
      u_generate_code rnd (tokens_tbl s) now = Inr c \<and>
      (\<exists>r \<in> set (tokens_tbl s'). client_token r = client \<and> code r = Some c \<and>
         code_expires r = Some (now + 60 * 60000000)))"
proof (intro conjI allI impI)
  fix c assume "u_generate_code rnd toks now = Inr c"
  from u_generate_code_Inr [OF this]
  show "length c = 9" and "set c \<subseteq> set (ascii_letters @ digits)" and "\<not> taken toks now c"
    and "\<exists>i<10. c = attempt rnd i \<and> (\<forall>j<i. taken toks now (attempt rnd j))"
    by blast+
next
  fix e assume e: "u_generate_code rnd toks now = Inl e"
  from u_generate_code_Inl [OF e]
  show "e = Exception ''We hit max retries without finding a none repreated code!''"
    by blast
  fix i :: nat assume "i < 10"
  with u_generate_code_Inl [OF e] show "taken toks now (attempt rnd i)"
    by blast
next
  fix i j c
  assume "reach t s" and ij: "i < j \<and> j < length (tokens_tbl s)"
  then have "db_inv t s"
    by (simp add: reach_db_inv)
  then have "keys_ok s" and "codes_ok t (tokens_tbl s)"
    by (simp_all add: db_inv_def)
  with ij show "\<not> (code_unexpired t c (tokens_tbl s ! i) \<and> code_unexpired t c (tokens_tbl s ! j))"
    using codes_ok_nth by blast
next
  fix client st' c s'
  assume "generate_code X rnd uuid_client uuid_session now ct st return_url pending user_agent
        force_relink s = (Inr (client, st', Some c, False), s')"
  from generate_code_issued [OF this]
  show "u_generate_code rnd (tokens_tbl s) now = Inr c"
    and "\<exists>r \<in> set (tokens_tbl s'). client_token r = client \<and> code r = Some c \<and>
         code_expires r = Some (now + 60 * 60000000)"
    by (simp_all add: timedelta_minutes_def CODE_EXPIRATION_TIME_MINUTES_def)
qed

lemma reach_example_two: "reach 100 example_two"
  unfolding example_two_def by (rule reach.requestCode [OF reach_example_coded])

theorem u_generate_code_unique_witness:
  "u_generate_code example_rnd (tokens_tbl example_coded) 100 = Inr ''bcdefghij'' \<and>
   taken (tokens_tbl example_coded) 100 (attempt example_rnd 0) \<and>
   \<not> taken (tokens_tbl example_coded) 100 ''bcdefghij'' \<and>
   u_generate_code example_rnd0 (tokens_tbl example_full) 100 =
     Inl (Exception ''We hit max retries without finding a none repreated code!'') \<and>
   taken (tokens_tbl example_full) 100 (attempt example_rnd0 9) \<and>
   reach 100 example_two \<and>
   map (\<lambda>r. (client_token r, code r, code_expires r)) (tokens_tbl example_two) =
     [(''c1'', Some ''abcdefghi'', Some 3600000100), (''c2'', Some ''bcdefghij'', Some 3600000100)] \<and>
   generate_code example_ext example_rnd ''c2'' ''s2'' 100 None None ''url'' JNull None False
     example_coded = (Inr (''c2'', ''s2'', Some ''bcdefghij'', False), example_two)"
proof -
  have a: "u_generate_code example_rnd (tokens_tbl example_coded) 100 = Inr ''bcdefghij''"
    by code_simp
  have b: "taken (tokens_tbl example_coded) 100 (attempt example_rnd 0)"
    by code_simp
  have c: "u_generate_code example_rnd0 (tokens_tbl example_full) 100 =
     Inl (Exception ''We hit max retries without finding a none repreated code!'')"
    by code_simp
  have d: "map (\<lambda>r. (client_token r, code r, code_expires r)) (tokens_tbl example_two) =
     [(''c1'', Some ''abcdefghi'', Some 3600000100), (''c2'', Some ''bcdefghij'', Some 3600000100)]"
    by code_simp
  have e: "fst (generate_code example_ext example_rnd ''c2'' ''s2'' 100 None None ''url'' JNull None
     False example_coded) = Inr (''c2'', ''s2'', Some ''bcdefghij'', False)"
    by code_simp
  have f: "generate_code example_ext example_rnd ''c2'' ''s2'' 100 None None ''url'' JNull None False
     example_coded = (Inr (''c2'', ''s2'', Some ''bcdefghij'', False), example_two)"
    unfolding example_two_def using e by (simp only: prod_eq_iff fst_conv snd_conv simp_thms)
  note T1 = u_generate_code_unique [where rnd = example_rnd and toks = "tokens_tbl example_coded"
        and now = 100 and t = 100 and s = example_coded and X = example_ext
        and uuid_client = "''c2''" and uuid_session = "''s2''" and ct = None and st = None
        and return_url = "''url''" and pending = JNull and user_agent = None
        and force_relink = False]
  note T2 = u_generate_code_unique [where rnd = example_rnd0 and toks = "tokens_tbl example_full"
        and now = 100 and t = 100 and s = example_two and X = example_ext
        and uuid_client = "''c2''" and uuid_session = "''s2''" and ct = None and st = None
        and return_url = "''url''" and pending = JNull and user_agent = None
        and force_relink = False]
  from T1 a have n: "\<not> taken (tokens_tbl example_coded) 100 ''bcdefghij''"
    by blast
  have "(9::nat) < 10"
    by simp
  with T2 c have g: "taken (tokens_tbl example_full) 100 (attempt example_rnd0 9)"
    by blast
  show ?thesis
    by (intro conjI) (rule a b n c g reach_example_two d f)+
qed

end
